theory Spec2Isabelle
  imports Complex_Main "HOL-Library.Word"
begin

unbundle bit_operations_syntax

section \<open>AudioPlayer.cpp: the decode / render / collect pipeline\<close>

text \<open>
  A shallow embedding of the parts of \<^verbatim>\<open>src/Player/AudioPlayer.cpp\<close> that coordinate
  the reader threads, the render callback and the collector: the frame counters, the
  table of active decoders and the decoder queue.

  The model is sequential: every function below is one uninterrupted run of the source
  function (or of one pass of a loop body) on the player's fields. The atomic
  operations of the source are then plain reads and writes:
  \<^verbatim>\<open>OSAtomicAdd64Barrier(n, &x)\<close> is \<open>x := x + n\<close>, and
  \<^verbatim>\<open>OSAtomicCompareAndSwap64Barrier(x, v, &x)\<close>, which compares \<open>x\<close> with the value
  just read from it, is \<open>x := v\<close>.

  Machine integers are words: \<^verbatim>\<open>SInt64\<close> is \<open>64 word\<close> (compared with the signed
  orders \<open><s\<close>), \<^verbatim>\<open>UInt32\<close> is \<open>32 word\<close>, \<^verbatim>\<open>size_t\<close> is taken to be 64 bits wide and
  \<^verbatim>\<open>sizeof(float)\<close> to be 4.
\<close>

subsection \<open>Types of the platform\<close>

type_synonym SInt64 = "64 word"
type_synonym UInt32 = "32 word"
type_synonym size_t = "64 word"
type_synonym OSStatus = "32 word"

definition noErr :: OSStatus where
  "noErr = 0"

text \<open>\<^verbatim>\<open>ioErr\<close> of MacErrors.h is \<open>-36\<close>.\<close>

definition ioErr :: OSStatus where
  "ioErr = - 36"

text \<open>The render action flags of AUComponent.h: \<^verbatim>\<open>(1 << 3)\<close> and \<^verbatim>\<open>(1 << 4)\<close>.\<close>

definition kAudioUnitRenderAction_PostRender :: UInt32 where
  "kAudioUnitRenderAction_PostRender = 8"

definition kAudioUnitRenderAction_OutputIsSilence :: UInt32 where
  "kAudioUnitRenderAction_OutputIsSilence = 16"

definition RING_BUFFER_SIZE_FRAMES :: SInt64 where
  "RING_BUFFER_SIZE_FRAMES = 16384"

definition RING_BUFFER_WRITE_CHUNK_SIZE_FRAMES :: UInt32 where
  "RING_BUFFER_WRITE_CHUNK_SIZE_FRAMES = 2048"

text \<open>\<^verbatim>\<open>std::min(a, b)\<close> is \<^verbatim>\<open>(b < a) ? b : a\<close>, on \<^verbatim>\<open>SInt64\<close> with the signed order.\<close>

definition min_SInt64 :: "SInt64 \<Rightarrow> SInt64 \<Rightarrow> SInt64" where
  "min_SInt64 a b = (if b <s a then b else a)"

definition min_UInt32 :: "UInt32 \<Rightarrow> UInt32 \<Rightarrow> UInt32" where
  "min_UInt32 a b = (if b < a then b else a)"

subsection \<open>Decoders and decoder states\<close>

text \<open>
  Of an \<^verbatim>\<open>AudioStreamBasicDescription\<close> the player reads the sample rate, the channel
  count and the frame size. The sample rate is a \<^verbatim>\<open>Float64\<close> that is only ever compared
  for equality; it is a real number here (no NaN).
\<close>

record AudioStreamBasicDescription =
  mSampleRate :: real
  mChannelsPerFrame :: UInt32
  mBytesPerFrame :: UInt32

text \<open>
  An \<^verbatim>\<open>AudioDecoder\<close> is supplied from outside. The record keeps its identity (the
  pointer), what \<^verbatim>\<open>GetFormat()\<close>, \<^verbatim>\<open>GetTotalFrames()\<close> and \<^verbatim>\<open>SupportsSeeking()\<close>
  answer. What the decoder answers while it is being read (\<^verbatim>\<open>GetCurrentFrame\<close>,
  \<^verbatim>\<open>SeekToFrame\<close>, \<^verbatim>\<open>ReadAudio\<close>) is an argument of the reader's step below.
\<close>

record AudioDecoder =
  decoderId :: nat
  GetFormat :: AudioStreamBasicDescription
  GetTotalFrames :: SInt64
  SupportsSeeking :: bool

record DecoderStateData =
  mDecoder :: AudioDecoder
  mTimeStamp :: SInt64
  mTotalFrames :: SInt64
  mFramesRendered :: SInt64
  mFrameToSeek :: SInt64
  mKeepDecoding :: bool
  mReadyForCollection :: bool
  mDecodingThread :: nat

text \<open>
  Modelled from the spec: the constructor \<^verbatim>\<open>DecoderStateData(decoder)\<close> is declared in
  DecoderStateData.h, which is not among the sources. The spec's data model gives the
  fields of a fresh state: the total the decoder declares, nothing rendered, the
  sentinel \<open>-1\<close> for "no pending seek", decoding on, not ready for collection.
\<close>

definition new_DecoderStateData :: "AudioDecoder \<Rightarrow> DecoderStateData" where
  "new_DecoderStateData decoder =
     \<lparr> mDecoder = decoder, mTimeStamp = 0, mTotalFrames = GetTotalFrames decoder,
       mFramesRendered = 0, mFrameToSeek = - 1, mKeepDecoding = True,
       mReadyForCollection = False, mDecodingThread = 0 \<rparr>"

subsection \<open>What the player tells the outside\<close>

text \<open>
  The decoder callbacks, the semaphore signals, the reader threads created and the
  resets of the audio graph are recorded in the order in which the source issues them.
\<close>

datatype event =
    DecodingStarted nat
  | DecodingFinished nat
  | RenderingStarted nat
  | RenderingFinished nat
  | SignalDecoderSemaphore
  | SignalCollectorSemaphore
  | ReaderThreadCreated
  | GraphReset

subsection \<open>The player\<close>

text \<open>
  \<open>mActiveDecoders\<close> is the array of \<^verbatim>\<open>kActiveDecoderArraySize\<close> pointers; \<open>None\<close> is
  \<^verbatim>\<open>NULL\<close> and the length of the list is the array size (the constant is declared in
  AudioPlayer.h). Every state is referenced from one slot only, so the slot holds the
  state itself. The player's own counter \<^verbatim>\<open>mFramesRendered\<close> is \<open>mFramesRendered_global\<close>
  (the name without suffix is the field of a decoder state).
  \<open>mFramesRenderedLastPass\<close> is declared in AudioPlayer.h; the source assigns it a
  \<^verbatim>\<open>UInt32\<close> and casts it to \<^verbatim>\<open>SInt64\<close>, so it is a \<^verbatim>\<open>UInt32\<close> here. Of the audio graph
  the player keeps whether \<^verbatim>\<open>AUGraphIsRunning\<close> reports it running; \<^verbatim>\<open>AUGraphStart\<close> and
  \<^verbatim>\<open>AUGraphStop\<close>, whose status the source only logs, are taken to start and stop it.
\<close>

record AudioPlayer =
  mDecoderQueue :: "AudioDecoder list"
  mActiveDecoders :: "DecoderStateData option list"
  mFramesDecoded :: SInt64
  mFramesRendered_global :: SInt64
  mFramesRenderedLastPass :: UInt32
  mNextDecoderStartingTimeStamp :: SInt64
  graphIsRunning :: bool
  events :: "event list"

definition emit :: "event list \<Rightarrow> AudioPlayer \<Rightarrow> AudioPlayer" where
  "emit es p = p\<lparr>events := events p @ es\<rparr>"

subsection \<open>Other utilities: the current decoder state\<close>

text \<open>
  \<^verbatim>\<open>GetCurrentDecoderState\<close>: the loop over the table with its \<open>result\<close> variable.
  Slots that are \<^verbatim>\<open>NULL\<close> or ready for collection are skipped; a later state replaces
  the result only when its time stamp is strictly smaller.
\<close>

fun currentDecoderLoop ::
  "DecoderStateData option \<Rightarrow> DecoderStateData option list \<Rightarrow> DecoderStateData option" where
  "currentDecoderLoop result [] = result"
| "currentDecoderLoop result (None # rest) = currentDecoderLoop result rest"
| "currentDecoderLoop result (Some decoderState # rest) =
     (if mReadyForCollection decoderState then currentDecoderLoop result rest
      else (case result of
              None \<Rightarrow> currentDecoderLoop (Some decoderState) rest
            | Some r \<Rightarrow>
                if mTimeStamp decoderState <s mTimeStamp r
                then currentDecoderLoop (Some decoderState) rest
                else currentDecoderLoop result rest))"

definition GetCurrentDecoderState :: "AudioPlayer \<Rightarrow> DecoderStateData option" where
  "GetCurrentDecoderState p = currentDecoderLoop None (mActiveDecoders p)"

definition GetCurrentFrame :: "AudioPlayer \<Rightarrow> SInt64" where
  "GetCurrentFrame p =
     (case GetCurrentDecoderState p of
        None \<Rightarrow> - 1
      | Some currentDecoderState \<Rightarrow>
          if - 1 = mFrameToSeek currentDecoderState
          then mFramesRendered currentDecoderState
          else mFrameToSeek currentDecoderState)"

text \<open>The states a scan of the table looks at: present and not ready for collection.\<close>

fun liveStates :: "DecoderStateData option list \<Rightarrow> DecoderStateData list" where
  "liveStates [] = []"
| "liveStates (None # rest) = liveStates rest"
| "liveStates (Some s # rest) =
     (if mReadyForCollection s then liveStates rest else s # liveStates rest)"

subsection \<open>Playback control\<close>

definition IsPlaying :: "AudioPlayer \<Rightarrow> bool" where
  "IsPlaying p = graphIsRunning p"

text \<open>\<^verbatim>\<open>Play()\<close> without argument: \<^verbatim>\<open>AUGraphStart\<close> unless the graph is running.\<close>

definition Play :: "AudioPlayer \<Rightarrow> AudioPlayer" where
  "Play p = (if IsPlaying p then p else p\<lparr>graphIsRunning := True\<rparr>)"

definition Pause :: "AudioPlayer \<Rightarrow> AudioPlayer" where
  "Pause p = (if \<not> IsPlaying p then p else p\<lparr>graphIsRunning := False\<rparr>)"

text \<open>
  \<^verbatim>\<open>StopActiveDecoders\<close>: every slot that is not \<^verbatim>\<open>NULL\<close> (ready for collection or not)
  has its two flags set; then both semaphores are signalled.
\<close>

definition stopDecoderState :: "DecoderStateData \<Rightarrow> DecoderStateData" where
  "stopDecoderState decoderState =
     decoderState\<lparr>mKeepDecoding := False, mReadyForCollection := True\<rparr>"

definition StopActiveDecoders :: "AudioPlayer \<Rightarrow> AudioPlayer" where
  "StopActiveDecoders p =
     emit [SignalDecoderSemaphore, SignalCollectorSemaphore]
       (p\<lparr>mActiveDecoders := map (map_option stopDecoderState) (mActiveDecoders p)\<rparr>)"

text \<open>
  \<^verbatim>\<open>ResetAUGraph\<close> asks every unit of the graph to reset; none of its callers looks at the
  status it returns. The model records that the reset was issued.
\<close>

definition ResetAUGraph :: "AudioPlayer \<Rightarrow> AudioPlayer" where
  "ResetAUGraph p = emit [GraphReset] p"

definition Stop :: "AudioPlayer \<Rightarrow> AudioPlayer" where
  "Stop p =
     (if \<not> IsPlaying p then p
      else (ResetAUGraph (StopActiveDecoders (Pause p)))
             \<lparr>mFramesDecoded := 0, mFramesRendered_global := 0,
              mNextDecoderStartingTimeStamp := 0\<rparr>)"

subsection \<open>Callbacks: Render\<close>

text \<open>
  An \<^verbatim>\<open>AudioBufferList\<close> is the list of its \<^verbatim>\<open>mNumberBuffers\<close> buffers. \<open>mData\<close> points
  to storage of the caller: the bytes from that address on, by offset.
  \<^verbatim>\<open>memset(mData + ofs, 0, count)\<close> writes \<open>count\<close> zero bytes from offset \<open>ofs\<close>.
\<close>

record AudioBuffer =
  mNumberChannels :: UInt32
  mDataByteSize :: UInt32
  mData :: "nat \<Rightarrow> 8 word"

type_synonym AudioBufferList = "AudioBuffer list"

definition memset_zero :: "(nat \<Rightarrow> 8 word) \<Rightarrow> nat \<Rightarrow> nat \<Rightarrow> (nat \<Rightarrow> 8 word)" where
  "memset_zero mem ofs count = (\<lambda>i. if ofs \<le> i \<and> i < ofs + count then 0 else mem i)"

type_synonym CARingBufferError = "32 word"

definition kCARingBufferError_OK :: CARingBufferError where
  "kCARingBufferError_OK = 0"

text \<open>
  \<^verbatim>\<open>CARingBuffer::Fetch(ioData, frames, startFrame, false)\<close> belongs to the platform's
  ring buffer: it is an argument of \<open>Render\<close>, giving its status and the buffer list as
  it leaves it.
\<close>

type_synonym RingFetch =
  "AudioBufferList \<Rightarrow> UInt32 \<Rightarrow> SInt64 \<Rightarrow> CARingBufferError \<times> AudioBufferList"

definition silenceBuffer :: "size_t \<Rightarrow> AudioBuffer \<Rightarrow> AudioBuffer" where
  "silenceBuffer byteCountToZero buffer =
     buffer\<lparr>mData := memset_zero (mData buffer) 0 (unat byteCountToZero),
            mDataByteSize := ucast byteCountToZero\<rparr>"

definition silenceTail :: "UInt32 \<Rightarrow> size_t \<Rightarrow> AudioBuffer \<Rightarrow> AudioBuffer" where
  "silenceTail framesToRead byteCountToZero buffer =
     buffer\<lparr>mData := memset_zero (mData buffer) (4 * unat framesToRead) (unat byteCountToZero),
            mDataByteSize := mDataByteSize buffer + ucast byteCountToZero\<rparr>"

definition Render ::
  "RingFetch \<Rightarrow> AudioPlayer \<Rightarrow> UInt32 \<Rightarrow> UInt32 \<Rightarrow> AudioBufferList
     \<Rightarrow> OSStatus \<times> AudioPlayer \<times> UInt32 \<times> AudioBufferList" where
  "Render Fetch p ioActionFlags inNumberFrames ioData =
     (let framesAvailableToRead = (ucast (mFramesDecoded p - mFramesRendered_global p) :: UInt32)
      in if 0 = framesAvailableToRead then
           (let byteCountToZero = (ucast inNumberFrames :: size_t) * 4
            in (noErr, p, ioActionFlags OR kAudioUnitRenderAction_OutputIsSilence,
                map (silenceBuffer byteCountToZero) ioData))
         else
           (let framesToRead = min_UInt32 framesAvailableToRead inNumberFrames
            in case Fetch ioData framesToRead (mFramesRendered_global p) of
                 (result, fetched) \<Rightarrow>
                   if kCARingBufferError_OK \<noteq> result then (ioErr, p, ioActionFlags, fetched)
                   else
                     (let p1 = p\<lparr>mFramesRenderedLastPass := framesToRead,
                                  mFramesRendered_global :=
                                    mFramesRendered_global p + ucast framesToRead\<rparr>;
                          out =
                            (if framesToRead \<noteq> inNumberFrames then
                               (let framesOfSilence = inNumberFrames - framesToRead;
                                    byteCountToZero = (ucast framesOfSilence :: size_t) * 4
                                in map (silenceTail framesToRead byteCountToZero) fetched)
                             else fetched);
                          framesAvailableToWrite =
                            (ucast (RING_BUFFER_SIZE_FRAMES
                                      - (mFramesDecoded p1 - mFramesRendered_global p1)) :: UInt32);
                          p2 = (if RING_BUFFER_WRITE_CHUNK_SIZE_FRAMES \<le> framesAvailableToWrite
                                then emit [SignalDecoderSemaphore] p1 else p1)
                      in (noErr, p2, ioActionFlags, out))))"

subsection \<open>Callbacks: DidRender\<close>

text \<open>
  The body of the loop for one state that is neither \<^verbatim>\<open>NULL\<close> nor ready for collection:
  the state as the pass leaves it, the notifications issued, and
  \<open>framesFromThisDecoder\<close>.
\<close>

definition accountDecoder ::
  "UInt32 \<Rightarrow> DecoderStateData \<Rightarrow> DecoderStateData \<times> event list \<times> SInt64" where
  "accountDecoder lastPass decoderState =
     (let decoderFramesRemaining = mTotalFrames decoderState - mFramesRendered decoderState;
          framesFromThisDecoder = min_SInt64 decoderFramesRemaining (ucast lastPass);
          started = (if 0 = mFramesRendered decoderState
                     then [RenderingStarted (decoderId (mDecoder decoderState))] else []);
          s1 = decoderState\<lparr>mFramesRendered :=
                              mFramesRendered decoderState + framesFromThisDecoder\<rparr>
      in if mFramesRendered s1 = mTotalFrames s1
         then (s1\<lparr>mReadyForCollection := True\<rparr>,
               started @ [RenderingFinished (decoderId (mDecoder decoderState)),
                          SignalCollectorSemaphore],
               framesFromThisDecoder)
         else (s1, started, framesFromThisDecoder))"

text \<open>
  The loop over the table. \<open>framesRemainingToDistribute\<close> is carried along; the loop
  ends at the end of the table or when that variable reaches 0.
\<close>

fun distributeFrames ::
  "UInt32 \<Rightarrow> SInt64 \<Rightarrow> DecoderStateData option list
     \<Rightarrow> DecoderStateData option list \<times> event list" where
  "distributeFrames lastPass framesRemainingToDistribute [] = ([], [])"
| "distributeFrames lastPass framesRemainingToDistribute (None # rest) =
     (case distributeFrames lastPass framesRemainingToDistribute rest of
        (rest', es) \<Rightarrow> (None # rest', es))"
| "distributeFrames lastPass framesRemainingToDistribute (Some decoderState # rest) =
     (if mReadyForCollection decoderState then
        (case distributeFrames lastPass framesRemainingToDistribute rest of
           (rest', es) \<Rightarrow> (Some decoderState # rest', es))
      else
        (case accountDecoder lastPass decoderState of
           (s', es1, framesFromThisDecoder) \<Rightarrow>
             if 0 = framesRemainingToDistribute - framesFromThisDecoder
             then (Some s' # rest, es1)
             else (case distributeFrames lastPass
                          (framesRemainingToDistribute - framesFromThisDecoder) rest of
                     (rest', es2) \<Rightarrow> (Some s' # rest', es1 @ es2))))"

text \<open>The player as the loop leaves it, before the test for a current decoder.\<close>

definition distributeLastPass :: "AudioPlayer \<Rightarrow> AudioPlayer" where
  "distributeLastPass p =
     (case distributeFrames (mFramesRenderedLastPass p)
             (ucast (mFramesRenderedLastPass p)) (mActiveDecoders p) of
        (table, es) \<Rightarrow> emit es (p\<lparr>mActiveDecoders := table\<rparr>))"

definition DidRender :: "AudioPlayer \<Rightarrow> UInt32 \<Rightarrow> OSStatus \<times> AudioPlayer" where
  "DidRender p ioActionFlags =
     (if kAudioUnitRenderAction_PostRender AND ioActionFlags \<noteq> 0 then
        (if 0 = mFramesRenderedLastPass p then (noErr, p)
         else
           (let p1 = distributeLastPass p
            in (noErr, if GetCurrentDecoderState p1 = None then Stop p1 else p1)))
      else (noErr, p))"

text \<open>
  The states the loop visits, as it finds them, in the order of the visits: the
  states that are present and not ready for collection, up to the one at which
  \<open>framesRemainingToDistribute\<close> reaches 0.
\<close>

fun visitedStates ::
  "UInt32 \<Rightarrow> SInt64 \<Rightarrow> DecoderStateData option list \<Rightarrow> DecoderStateData list" where
  "visitedStates lastPass framesRemainingToDistribute [] = []"
| "visitedStates lastPass framesRemainingToDistribute (None # rest) =
     visitedStates lastPass framesRemainingToDistribute rest"
| "visitedStates lastPass framesRemainingToDistribute (Some decoderState # rest) =
     (if mReadyForCollection decoderState
      then visitedStates lastPass framesRemainingToDistribute rest
      else (case accountDecoder lastPass decoderState of
              (s', es1, framesFromThisDecoder) \<Rightarrow>
                if 0 = framesRemainingToDistribute - framesFromThisDecoder
                then [decoderState]
                else decoderState #
                       visitedStates lastPass
                         (framesRemainingToDistribute - framesFromThisDecoder) rest))"

text \<open>The sum of \<open>mFramesRendered\<close> over the states of a table that are not collected.\<close>

definition sumFramesRendered :: "DecoderStateData option list \<Rightarrow> SInt64" where
  "sumFramesRendered table = sum_list (map mFramesRendered (liveStates table))"

subsection \<open>What the operating system and the audio graph answer\<close>

text \<open>
  The calls whose status the source branches on are answered by the host:
  \<open>lockResult h k\<close> is what the \<open>k\<close>-th \<^verbatim>\<open>pthread_mutex_lock(&mMutex)\<close> of an operation
  returns, \<open>createResult\<close> what \<^verbatim>\<open>pthread_create\<close> returns, \<open>nodeInfoResult\<close> and
  \<open>getPropertyResult\<close> what \<^verbatim>\<open>AUGraphNodeInfo\<close> and \<^verbatim>\<open>AudioUnitGetProperty\<close> return in
  \<^verbatim>\<open>Enqueue\<close>, \<open>graphFormat\<close> the stream format the latter writes, and
  \<open>setFormatResult\<close> what \<^verbatim>\<open>SetAUGraphFormat\<close> returns. A failing
  \<^verbatim>\<open>pthread_mutex_unlock\<close> is only logged.
\<close>

record Host =
  lockResult :: "nat \<Rightarrow> int"
  createResult :: int
  pthread_self :: nat
  nodeInfoResult :: OSStatus
  getPropertyResult :: OSStatus
  graphFormat :: AudioStreamBasicDescription
  setFormatResult :: OSStatus

definition laterLocks :: "Host \<Rightarrow> Host" where
  "laterLocks h = h\<lparr>lockResult := (\<lambda>k. lockResult h (Suc k))\<rparr>"

subsection \<open>The file reader thread\<close>

definition updateState ::
  "nat \<Rightarrow> (DecoderStateData \<Rightarrow> DecoderStateData) \<Rightarrow> AudioPlayer \<Rightarrow> AudioPlayer" where
  "updateState i f p =
     p\<lparr>mActiveDecoders := (mActiveDecoders p)[i := map_option f (mActiveDecoders p ! i)]\<rparr>"

text \<open>The first slot that is \<^verbatim>\<open>NULL\<close> takes the new state; the result names the slot.\<close>

fun installState ::
  "DecoderStateData \<Rightarrow> DecoderStateData option list
     \<Rightarrow> (DecoderStateData option list \<times> nat) option" where
  "installState decoderStateData [] = None"
| "installState decoderStateData (None # rest) = Some (Some decoderStateData # rest, 0)"
| "installState decoderStateData (Some other # rest) =
     (case installState decoderStateData rest of
        None \<Rightarrow> None
      | Some (rest', i) \<Rightarrow> Some (Some other # rest', Suc i))"

text \<open>
  The entry of \<^verbatim>\<open>FileReaderThreadEntry\<close>, up to the decoding loop. The result is \<open>None\<close>
  where the source calls \<^verbatim>\<open>front()\<close> on an empty queue, which C++ leaves undefined.
  Otherwise it is the player and the slot of the new state; there is no slot when the
  lock failed (the thread returns at once) or when the table had no free slot (the
  source then decodes into a state that no other thread can reach).
\<close>

definition FileReaderStart :: "Host \<Rightarrow> AudioPlayer \<Rightarrow> (AudioPlayer \<times> nat option) option" where
  "FileReaderStart h p =
     (if 0 \<noteq> lockResult h 0 then Some (p, None)
      else (case mDecoderQueue p of
              [] \<Rightarrow> None
            | decoder # queue \<Rightarrow>
                (let p1 = p\<lparr>mDecoderQueue := queue\<rparr>;
                     decoderStateData =
                       (new_DecoderStateData decoder)
                         \<lparr>mDecodingThread := pthread_self h,
                          mTimeStamp := mNextDecoderStartingTimeStamp p1\<rparr>
                 in case installState decoderStateData (mActiveDecoders p1) of
                      None \<Rightarrow> Some (p1, None)
                    | Some (table, i) \<Rightarrow> Some (p1\<lparr>mActiveDecoders := table\<rparr>, Some i))))"

text \<open>
  What the decoder answers during one pass of the inner loop: \<^verbatim>\<open>GetCurrentFrame()\<close>
  before the seek, \<^verbatim>\<open>SeekToFrame(mFrameToSeek)\<close>, \<^verbatim>\<open>GetCurrentFrame()\<close> before the read,
  and \<^verbatim>\<open>ReadAudio(bufferList, 2048)\<close>.
\<close>

record DecoderAnswers =
  currentFrameBeforeSeeking :: SInt64
  newFrame :: SInt64
  startingFrameNumber :: SInt64
  framesDecoded :: UInt32

text \<open>The block that serves a pending seek (\<^verbatim>\<open>-1 != mFrameToSeek\<close>) of the state in slot \<open>i\<close>.\<close>

definition seekRequested :: "DecoderAnswers \<Rightarrow> nat \<Rightarrow> AudioPlayer \<Rightarrow> AudioPlayer" where
  "seekRequested a i p =
     (let p1 = updateState i (\<lambda>s. s\<lparr>mFrameToSeek := - 1\<rparr>) p
      in if - 1 \<noteq> newFrame a then
           (let framesSkipped = newFrame a - currentFrameBeforeSeeking a;
                p2 = updateState i (\<lambda>s. s\<lparr>mFramesRendered := newFrame a\<rparr>) p1;
                p3 = p2\<lparr>mFramesDecoded := mFramesDecoded p2 + framesSkipped\<rparr>;
                p4 = p3\<lparr>mFramesRendered_global := mFramesDecoded p3\<rparr>
            in ResetAUGraph p4)
         else p1)"

text \<open>The block for a read that returned no frames: the end of the stream.\<close>

definition endOfStream :: "Host \<Rightarrow> DecoderAnswers \<Rightarrow> nat \<Rightarrow> nat \<Rightarrow> AudioPlayer \<Rightarrow> AudioPlayer" where
  "endOfStream h a decoder i p =
     (let p1 = emit [DecodingFinished decoder] p;
          p2 = updateState i
                 (\<lambda>s. s\<lparr>mDecodingThread := 0, mKeepDecoding := False,
                        mTotalFrames := startingFrameNumber a\<rparr>) p1;
          p3 = p2\<lparr>mNextDecoderStartingTimeStamp :=
                     mNextDecoderStartingTimeStamp p2 + startingFrameNumber a\<rparr>
      in if 0 = lockResult h 0 then
           (let decoderQueueSize = length (mDecoderQueue p3)
            in if 0 < decoderQueueSize \<and> createResult h = 0
               then emit [ReaderThreadCreated] p3 else p3)
         else p3)"

text \<open>
  One pass of the inner loop \<^verbatim>\<open>for(;;)\<close> by the reader of slot \<open>i\<close>. The flag says
  whether the loop goes on (\<open>False\<close>: \<^verbatim>\<open>break\<close>, the thread waits on the semaphore and
  tests \<open>mKeepDecoding\<close>). The result is \<open>None\<close> when slot \<open>i\<close> holds no state or a state
  whose thread handle is cleared: that reader has finished. A reader whose handle is
  set may take a pass whatever \<open>mKeepDecoding\<close> says: the inner loop does not test it,
  so a reader that was told to stop may still be inside. The status of
  \<^verbatim>\<open>CARingBuffer::Store\<close> is only logged by the source, and what is stored reaches the
  render callback through the ring buffer's \<^verbatim>\<open>Fetch\<close> only.
\<close>

definition readerIteration ::
  "Host \<Rightarrow> DecoderAnswers \<Rightarrow> nat \<Rightarrow> AudioPlayer \<Rightarrow> (AudioPlayer \<times> bool) option" where
  "readerIteration h a i p =
     (if \<not> i < length (mActiveDecoders p) then None
      else (case mActiveDecoders p ! i of
              None \<Rightarrow> None
            | Some decoderStateData \<Rightarrow>
                if mDecodingThread decoderStateData = 0 then None
                else
                  (let framesAvailableToWrite =
                         (ucast (RING_BUFFER_SIZE_FRAMES
                                   - (mFramesDecoded p - mFramesRendered_global p)) :: UInt32)
                   in if RING_BUFFER_WRITE_CHUNK_SIZE_FRAMES \<le> framesAvailableToWrite then
                        (let decoder = decoderId (mDecoder decoderStateData);
                             p1 = (if - 1 \<noteq> mFrameToSeek decoderStateData
                                   then seekRequested a i p else p);
                             p2 = (if 0 = startingFrameNumber a
                                   then emit [DecodingStarted decoder] p1 else p1);
                             p3 = (if 0 \<noteq> framesDecoded a
                                   then p2\<lparr>mFramesDecoded :=
                                              mFramesDecoded p2 + ucast (framesDecoded a)\<rparr>
                                   else p2)
                         in if 0 = framesDecoded a
                            then Some (endOfStream h a decoder i p3, False)
                            else Some (p3, True))
                      else Some (p, False))))"

subsection \<open>The collector thread\<close>

text \<open>One sweep of the collector over the table.\<close>

definition collectSlot :: "DecoderStateData option \<Rightarrow> DecoderStateData option" where
  "collectSlot slot =
     (case slot of
        None \<Rightarrow> None
      | Some decoderState \<Rightarrow> if mReadyForCollection decoderState then None else Some decoderState)"

definition CollectorSweep :: "AudioPlayer \<Rightarrow> AudioPlayer" where
  "CollectorSweep p = p\<lparr>mActiveDecoders := map collectSlot (mActiveDecoders p)\<rparr>"

subsection \<open>Playlist management\<close>

text \<open>\<^verbatim>\<open>Play(AudioDecoder *)\<close>. \<^verbatim>\<open>SetAUGraphChannelLayout\<close> returns \<^verbatim>\<open>noErr\<close> in every case.\<close>

definition Play_decoder :: "Host \<Rightarrow> AudioPlayer \<Rightarrow> AudioDecoder \<Rightarrow> bool \<times> AudioPlayer" where
  "Play_decoder h p decoder =
     (let wasPlaying = IsPlaying p;
          p1 = (if wasPlaying then Pause p else p);
          p2 = (ResetAUGraph (StopActiveDecoders p1))
                 \<lparr>mFramesDecoded := 0, mFramesRendered_global := 0,
                  mNextDecoderStartingTimeStamp := 0\<rparr>
      in if 0 \<noteq> lockResult h 0 then (False, p2)
         else
           (let p3 = p2\<lparr>mDecoderQueue := decoder # mDecoderQueue p2\<rparr>
            in if noErr \<noteq> setFormatResult h then (False, p3)
               else if 0 \<noteq> createResult h then (False, p3)
               else (let p4 = emit [ReaderThreadCreated] p3
                     in (True, if wasPlaying then Play p4 else p4))))"

text \<open>\<^verbatim>\<open>Enqueue(AudioDecoder *)\<close>.\<close>

definition Enqueue :: "Host \<Rightarrow> AudioPlayer \<Rightarrow> AudioDecoder \<Rightarrow> bool \<times> AudioPlayer" where
  "Enqueue h p decoder =
     (if 0 \<noteq> lockResult h 0 then (False, p)
      else
        (let decoderQueueSize = length (mDecoderQueue p)
         in if GetCurrentDecoderState p = None \<and> 0 = decoderQueueSize
            then Play_decoder (laterLocks h) p decoder
            else if noErr \<noteq> nodeInfoResult h then (False, p)
            else if noErr \<noteq> getPropertyResult h then (False, p)
            else
              (let format = graphFormat h;
                   nextFormat = GetFormat decoder;
                   formatsMatch = (mSampleRate nextFormat = mSampleRate format
                                   \<and> mChannelsPerFrame nextFormat = mChannelsPerFrame format)
               in if \<not> formatsMatch then (False, p)
                  else if 0 \<noteq> lockResult h 1 then (False, p)
                  else (True, p\<lparr>mDecoderQueue := mDecoderQueue p @ [decoder]\<rparr>))))"

text \<open>\<^verbatim>\<open>ClearQueuedDecoders\<close>.\<close>

definition ClearQueuedDecoders :: "Host \<Rightarrow> AudioPlayer \<Rightarrow> bool \<times> AudioPlayer" where
  "ClearQueuedDecoders h p =
     (if 0 \<noteq> lockResult h 0 then (False, p) else (True, p\<lparr>mDecoderQueue := []\<rparr>))"

subsection \<open>Seeking\<close>

text \<open>
  \<^verbatim>\<open>SeekToFrame\<close> writes to the state \<^verbatim>\<open>GetCurrentDecoderState\<close> points to. The loop of
  \<^verbatim>\<open>GetCurrentDecoderState\<close> once more, with the slot of its result: \<open>i\<close> is the loop
  index.
\<close>

fun currentSlotLoop ::
  "nat \<Rightarrow> (nat \<times> DecoderStateData) option \<Rightarrow> DecoderStateData option list
     \<Rightarrow> (nat \<times> DecoderStateData) option" where
  "currentSlotLoop i result [] = result"
| "currentSlotLoop i result (None # rest) = currentSlotLoop (Suc i) result rest"
| "currentSlotLoop i result (Some decoderState # rest) =
     (if mReadyForCollection decoderState then currentSlotLoop (Suc i) result rest
      else (case result of
              None \<Rightarrow> currentSlotLoop (Suc i) (Some (i, decoderState)) rest
            | Some (j, r) \<Rightarrow>
                if mTimeStamp decoderState <s mTimeStamp r
                then currentSlotLoop (Suc i) (Some (i, decoderState)) rest
                else currentSlotLoop (Suc i) result rest))"

text \<open>
  The result is \<open>None\<close> where \<^verbatim>\<open>assert(0 <= frame)\<close> fails. The compare-and-swap of
  \<open>mFrameToSeek\<close> against the value just read from it succeeds.
\<close>

definition SeekToFrame :: "AudioPlayer \<Rightarrow> SInt64 \<Rightarrow> (bool \<times> AudioPlayer) option" where
  "SeekToFrame p frame =
     (if frame <s 0 then None
      else (case currentSlotLoop 0 None (mActiveDecoders p) of
              None \<Rightarrow> Some (False, p)
            | Some (i, currentDecoderState) \<Rightarrow>
                if \<not> SupportsSeeking (mDecoder currentDecoderState) then Some (False, p)
                else Some (True,
                           emit [SignalDecoderSemaphore]
                             (updateState i (\<lambda>s. s\<lparr>mFrameToSeek := frame\<rparr>) p))))"

subsection \<open>Runs of the pipeline\<close>

text \<open>
  The threads take turns: a run is a list of actions, each one call of the controller,
  one step of a reader thread, one render callback, one post-render callback or one
  sweep of the collector. A step that has no outcome (a reader that does not exist, a
  failed assertion) leaves the player as it is.
\<close>

datatype action =
    CallPlay
  | CallPause
  | CallStop
  | CallPlayDecoder Host AudioDecoder
  | CallEnqueue Host AudioDecoder
  | CallClearQueuedDecoders Host
  | CallSeekToFrame SInt64
  | ReaderStarts Host
  | ReaderIterates Host DecoderAnswers nat
  | CallRender RingFetch UInt32 UInt32 AudioBufferList
  | CallDidRender UInt32
  | CollectorSweeps

fun perform :: "action \<Rightarrow> AudioPlayer \<Rightarrow> AudioPlayer" where
  "perform CallPlay p = Play p"
| "perform CallPause p = Pause p"
| "perform CallStop p = Stop p"
| "perform (CallPlayDecoder h decoder) p = snd (Play_decoder h p decoder)"
| "perform (CallEnqueue h decoder) p = snd (Enqueue h p decoder)"
| "perform (CallClearQueuedDecoders h) p = snd (ClearQueuedDecoders h p)"
| "perform (CallSeekToFrame frame) p =
     (case SeekToFrame p frame of None \<Rightarrow> p | Some (done, p') \<Rightarrow> p')"
| "perform (ReaderStarts h) p =
     (case FileReaderStart h p of None \<Rightarrow> p | Some (p', slot) \<Rightarrow> p')"
| "perform (ReaderIterates h a i) p =
     (case readerIteration h a i p of None \<Rightarrow> p | Some (p', goOn) \<Rightarrow> p')"
| "perform (CallRender Fetch ioActionFlags inNumberFrames ioData) p =
     fst (snd (Render Fetch p ioActionFlags inNumberFrames ioData))"
| "perform (CallDidRender ioActionFlags) p = snd (DidRender p ioActionFlags)"
| "perform CollectorSweeps p = CollectorSweep p"

fun run :: "action list \<Rightarrow> AudioPlayer \<Rightarrow> AudioPlayer" where
  "run [] p = p"
| "run (a # as) p = run as (perform a p)"

text \<open>
  A play session begins when \<^verbatim>\<open>Play(decoder)\<close> runs (directly or from \<^verbatim>\<open>Enqueue\<close>) and
  when \<^verbatim>\<open>Stop()\<close> gets past its guard (directly or from \<^verbatim>\<open>DidRender\<close>).
\<close>

fun beginsSession :: "action \<Rightarrow> AudioPlayer \<Rightarrow> bool" where
  "beginsSession CallStop p = IsPlaying p"
| "beginsSession (CallPlayDecoder h decoder) p = True"
| "beginsSession (CallEnqueue h decoder) p =
     (0 = lockResult h 0 \<and> GetCurrentDecoderState p = None \<and> mDecoderQueue p = [])"
| "beginsSession (CallDidRender ioActionFlags) p =
     (kAudioUnitRenderAction_PostRender AND ioActionFlags \<noteq> 0
      \<and> 0 \<noteq> mFramesRenderedLastPass p
      \<and> GetCurrentDecoderState (distributeLastPass p) = None \<and> IsPlaying p)"
| "beginsSession a p = False"

text \<open>
  A reader's step reaches the end of its stream when it reads (the ring has room for a
  chunk) and the read returns no frames. \<open>endOfStreamTotals\<close> is then the
  \<open>mTotalFrames\<close> of its state after the step.
\<close>

definition readsEndOfStream :: "DecoderAnswers \<Rightarrow> nat \<Rightarrow> AudioPlayer \<Rightarrow> bool" where
  "readsEndOfStream a i p =
     (i < length (mActiveDecoders p)
      \<and> (case mActiveDecoders p ! i of
            None \<Rightarrow> False
          | Some decoderStateData \<Rightarrow> mDecodingThread decoderStateData \<noteq> 0)
      \<and> RING_BUFFER_WRITE_CHUNK_SIZE_FRAMES
           \<le> (ucast (RING_BUFFER_SIZE_FRAMES
                       - (mFramesDecoded p - mFramesRendered_global p)) :: UInt32)
      \<and> 0 = framesDecoded a)"

fun endOfStreamTotals :: "action \<Rightarrow> AudioPlayer \<Rightarrow> SInt64 list" where
  "endOfStreamTotals (ReaderIterates h a i) p =
     (if readsEndOfStream a i p
      then (case mActiveDecoders (perform (ReaderIterates h a i) p) ! i of
              None \<Rightarrow> []
            | Some decoderStateData \<Rightarrow> [mTotalFrames decoderStateData])
      else [])"
| "endOfStreamTotals a p = []"

text \<open>
  The totals of the decoders that reached the end of their stream in the current play
  session, along a run that starts with the totals \<open>totals\<close>.
\<close>

fun sessionTotals :: "SInt64 list \<Rightarrow> action list \<Rightarrow> AudioPlayer \<Rightarrow> SInt64 list" where
  "sessionTotals totals [] p = totals"
| "sessionTotals totals (a # as) p =
     sessionTotals ((if beginsSession a p then [] else totals) @ endOfStreamTotals a p)
       as (perform a p)"

subsection \<open>Concrete players, decoders and hosts\<close>

text \<open>
  Two decoders of the same format, of 1000 and of 500 frames, a third one at another
  sample rate, and an empty one; the player as its constructor leaves it, with a table
  of eight slots.
\<close>

definition stereo44100 :: AudioStreamBasicDescription where
  "stereo44100 = \<lparr> mSampleRate = 44100, mChannelsPerFrame = 2, mBytesPerFrame = 4 \<rparr>"

definition stereo48000 :: AudioStreamBasicDescription where
  "stereo48000 = \<lparr> mSampleRate = 48000, mChannelsPerFrame = 2, mBytesPerFrame = 4 \<rparr>"

definition decoderD1 :: AudioDecoder where
  "decoderD1 = \<lparr> decoderId = 1, GetFormat = stereo44100, GetTotalFrames = 1000,
                 SupportsSeeking = True \<rparr>"

definition decoderD2 :: AudioDecoder where
  "decoderD2 = \<lparr> decoderId = 2, GetFormat = stereo44100, GetTotalFrames = 500,
                 SupportsSeeking = True \<rparr>"

definition decoderD3 :: AudioDecoder where
  "decoderD3 = \<lparr> decoderId = 3, GetFormat = stereo48000, GetTotalFrames = 500,
                 SupportsSeeking = True \<rparr>"

definition decoderEmpty :: AudioDecoder where
  "decoderEmpty = \<lparr> decoderId = 4, GetFormat = stereo44100, GetTotalFrames = 0,
                    SupportsSeeking = True \<rparr>"

definition newPlayer :: AudioPlayer where
  "newPlayer =
     \<lparr> mDecoderQueue = [], mActiveDecoders = replicate 8 None, mFramesDecoded = 0,
       mFramesRendered_global = 0, mFramesRenderedLastPass = 0,
       mNextDecoderStartingTimeStamp = 0, graphIsRunning = False, events = [] \<rparr>"

text \<open>A host on which every call succeeds, and one whose mutex cannot be locked.\<close>

definition hostOK :: Host where
  "hostOK =
     \<lparr> lockResult = (\<lambda>k. 0), createResult = 0, pthread_self = 7, nodeInfoResult = 0,
       getPropertyResult = 0, graphFormat = stereo44100, setFormatResult = 0 \<rparr>"

definition hostLockFails :: Host where
  "hostLockFails = hostOK\<lparr>lockResult := (\<lambda>k. 22)\<rparr>"

text \<open>A ring buffer that delivers what is asked for, and one that refuses.\<close>

definition fetchOK :: RingFetch where
  "fetchOK ioData frames startFrame =
     (kCARingBufferError_OK, map (\<lambda>b. b\<lparr>mDataByteSize := 4 * frames\<rparr>) ioData)"

definition fetchFails :: RingFetch where
  "fetchFails ioData frames startFrame = (4, ioData)"

definition outputBuffers :: AudioBufferList where
  "outputBuffers =
     [\<lparr> mNumberChannels = 1, mDataByteSize = 0, mData = (\<lambda>i. 255) \<rparr>,
      \<lparr> mNumberChannels = 1, mDataByteSize = 0, mData = (\<lambda>i. 170) \<rparr>]"

text \<open>What a decoder answers when it reads \<open>n\<close> frames from frame \<open>start\<close>, no seek pending.\<close>

definition reads :: "SInt64 \<Rightarrow> UInt32 \<Rightarrow> DecoderAnswers" where
  "reads start n =
     \<lparr> currentFrameBeforeSeeking = start, newFrame = start, startingFrameNumber = start,
       framesDecoded = n \<rparr>"

text \<open>
  The gapless handoff: \<open>decoderD1\<close> is played and \<open>decoderD2\<close> enqueued; the first reader
  decodes its 1000 frames and reaches the end of its stream, the second reader decodes
  its 500 frames.
\<close>

definition handoffActions :: "action list" where
  "handoffActions =
     [CallPlayDecoder hostOK decoderD1, CallEnqueue hostOK decoderD2,
      ReaderStarts hostOK, CallPlay,
      ReaderIterates hostOK (reads 0 1000) 0, ReaderIterates hostOK (reads 1000 0) 0,
      ReaderStarts hostOK, ReaderIterates hostOK (reads 0 500) 1]"

definition handoffDecoded :: AudioPlayer where
  "handoffDecoded = run handoffActions newPlayer"

text \<open>The same run up to the point where the first reader has decoded its 1000 frames.\<close>

definition handoffReading :: AudioPlayer where
  "handoffReading = run (take 5 handoffActions) newPlayer"

text \<open>
  The same, rendered in passes of 512 frames: after the first pass with its post-render
  callback and the second render callback.
\<close>

definition handoffSecondPass :: AudioPlayer where
  "handoffSecondPass =
     run [CallRender fetchOK 0 512 outputBuffers,
          CallDidRender kAudioUnitRenderAction_PostRender,
          CallRender fetchOK 0 512 outputBuffers]
       handoffDecoded"

text \<open>
  And rendered in passes of 500 frames: two passes with their post-render callbacks,
  then a sweep of the collector.
\<close>

definition handoffCollected :: AudioPlayer where
  "handoffCollected =
     run [CallRender fetchOK 0 500 outputBuffers,
          CallDidRender kAudioUnitRenderAction_PostRender,
          CallRender fetchOK 0 500 outputBuffers,
          CallDidRender kAudioUnitRenderAction_PostRender,
          CollectorSweeps]
       handoffDecoded"

text \<open>The second pass of the handoff, and then \<^verbatim>\<open>SeekToFrame(5000)\<close>.\<close>

definition seekPending :: AudioPlayer where
  "seekPending = run [CallSeekToFrame 5000] handoffSecondPass"

text \<open>
  An underrun: 1024 of the 1500 decoded frames are rendered, 476 are left for a pass
  of 512.
\<close>

definition underrunPlayer :: AudioPlayer where
  "underrunPlayer = run [CallRender fetchOK 0 1024 outputBuffers] handoffDecoded"

text \<open>The second pass of the handoff, paused.\<close>

definition pausedHandoff :: AudioPlayer where
  "pausedHandoff = run [CallPause] handoffSecondPass"

text \<open>
  An empty stream after \<open>decoderD1\<close>: the second reader reaches the end of its stream at
  frame 0. The 1000 frames of the first decoder are rendered in one pass; the next
  render callback finds nothing to read.
\<close>

definition emptyHandoff :: AudioPlayer where
  "emptyHandoff =
     run [CallPlayDecoder hostOK decoderD1, CallEnqueue hostOK decoderEmpty,
          ReaderStarts hostOK, CallPlay,
          ReaderIterates hostOK (reads 0 1000) 0, ReaderIterates hostOK (reads 1000 0) 0,
          ReaderStarts hostOK, ReaderIterates hostOK (reads 0 0) 1,
          CallRender fetchOK 0 1000 outputBuffers,
          CallDidRender kAudioUnitRenderAction_PostRender,
          CallRender fetchOK 0 512 outputBuffers]
       newPlayer"

definition emptyState :: DecoderStateData where
  "emptyState =
     \<lparr> mDecoder = decoderEmpty, mTimeStamp = 1000, mTotalFrames = 0, mFramesRendered = 0,
       mFrameToSeek = - 1, mKeepDecoding = False, mReadyForCollection = False,
       mDecodingThread = 0 \<rparr>"

text \<open>
  A long stream: 4096 frames are decoded, 1024 of them rendered and accounted, and
  \<^verbatim>\<open>SeekToFrame(20000)\<close> has been called.
\<close>

definition decoderLong :: AudioDecoder where
  "decoderLong = \<lparr> decoderId = 5, GetFormat = stereo44100, GetTotalFrames = 100000,
                   SupportsSeeking = True \<rparr>"

definition seekingPlayer :: AudioPlayer where
  "seekingPlayer =
     run [CallPlayDecoder hostOK decoderLong, ReaderStarts hostOK, CallPlay,
          ReaderIterates hostOK (reads 0 2048) 0,
          ReaderIterates hostOK (reads 2048 2048) 0,
          CallRender fetchOK 0 1024 outputBuffers,
          CallDidRender kAudioUnitRenderAction_PostRender,
          CallSeekToFrame 20000]
       newPlayer"

text \<open>
  The decoder's answers to that seek: it lands on frame 20000 and reads a chunk; it
  fails with \<open>-1\<close>; it returns \<open>-2\<close>.
\<close>

definition seekLands :: DecoderAnswers where
  "seekLands = \<lparr> currentFrameBeforeSeeking = 4096, newFrame = 20000,
                 startingFrameNumber = 20000, framesDecoded = 2048 \<rparr>"

definition seekFails :: DecoderAnswers where
  "seekFails = \<lparr> currentFrameBeforeSeeking = 4096, newFrame = - 1,
                 startingFrameNumber = 4096, framesDecoded = 2048 \<rparr>"

definition seekReturnsMinus2 :: DecoderAnswers where
  "seekReturnsMinus2 = \<lparr> currentFrameBeforeSeeking = 4096, newFrame = - 2,
                         startingFrameNumber = 4096, framesDecoded = 2048 \<rparr>"

text \<open>
  A pass of the reader of slot \<open>i\<close> serves a seek that lands: the reader exists, the
  ring has room for a chunk, a seek is pending on its state and the decoder's answer is
  not \<open>-1\<close>.
\<close>

definition landsSeek :: "DecoderAnswers \<Rightarrow> nat \<Rightarrow> AudioPlayer \<Rightarrow> bool" where
  "landsSeek a i p =
     (i < length (mActiveDecoders p)
      \<and> (case mActiveDecoders p ! i of
            None \<Rightarrow> False
          | Some decoderStateData \<Rightarrow>
              mDecodingThread decoderStateData \<noteq> 0 \<and> - 1 \<noteq> mFrameToSeek decoderStateData)
      \<and> RING_BUFFER_WRITE_CHUNK_SIZE_FRAMES
           \<le> (ucast (RING_BUFFER_SIZE_FRAMES
                       - (mFramesDecoded p - mFramesRendered_global p)) :: UInt32)
      \<and> - 1 \<noteq> newFrame a)"

text \<open>
  The actions other than the render callback, the post-render callback and a reader's
  pass that serves a landing seek.
\<close>

fun besidesRenderingAndSeeking :: "action \<Rightarrow> AudioPlayer \<Rightarrow> bool" where
  "besidesRenderingAndSeeking (CallRender Fetch ioActionFlags inNumberFrames ioData) p = False"
| "besidesRenderingAndSeeking (CallDidRender ioActionFlags) p = False"
| "besidesRenderingAndSeeking (ReaderIterates h a i) p = (\<not> landsSeek a i p)"
| "besidesRenderingAndSeeking a p = True"

text \<open>The equality of claim C2.\<close>

definition renderedSumsAgree :: "AudioPlayer \<Rightarrow> bool" where
  "renderedSumsAgree p \<longleftrightarrow> sumFramesRendered (mActiveDecoders p) = mFramesRendered_global p"

text \<open>What one slot contributes to the sum.\<close>

definition renderedPart :: "DecoderStateData option \<Rightarrow> SInt64" where
  "renderedPart slot =
     (case slot of None \<Rightarrow> 0 | Some s \<Rightarrow> if mReadyForCollection s then 0 else mFramesRendered s)"

section \<open>Properties\<close>

subsection \<open>The current decoder state\<close>

lemma currentDecoderLoop_None:
  "currentDecoderLoop result table = None \<longleftrightarrow> result = None \<and> liveStates table = []"
  by (induction result table rule: currentDecoderLoop.induct) (auto split: option.splits)

lemma currentDecoderLoop_Some:
  "currentDecoderLoop result table = Some s \<Longrightarrow>
     (result = Some s \<or> s \<in> set (liveStates table)) \<and>
     (\<forall>t \<in> set (liveStates table) \<union> set_option result. mTimeStamp s \<le>s mTimeStamp t)"
proof (induction result table rule: currentDecoderLoop.induct)
  case (1 result)
  then show ?case by (auto simp: word_sle_eq)
next
  case (2 result rest)
  then show ?case by simp
next
  case (3 result decoderState rest)
  then show ?case
    by (auto simp: word_sle_eq word_sless_alt split: if_splits option.splits)
qed

lemma currentSlotLoop_decoder:
  "map_option snd (currentSlotLoop i result table)
     = currentDecoderLoop (map_option snd result) table"
  by (induction i result table rule: currentSlotLoop.induct)
     (auto split: option.splits)

lemma currentSlot_is_current:
  "map_option snd (currentSlotLoop 0 None (mActiveDecoders p)) = GetCurrentDecoderState p"
  using currentSlotLoop_decoder [of 0 None "mActiveDecoders p"]
  by (simp add: GetCurrentDecoderState_def)

lemma currentSlotLoop_slot:
  assumes "currentSlotLoop i result table = Some (j, s)"
  shows "result = Some (j, s) \<or> (i \<le> j \<and> j < i + length table \<and> table ! (j - i) = Some s)"
  using assms
proof (induction i result table rule: currentSlotLoop.induct)
  case (1 i result)
  then show ?case by simp
next
  case (2 i result rest)
  then have "result = Some (j, s) \<or> Suc i \<le> j \<and> j < Suc i + length rest
               \<and> rest ! (j - Suc i) = Some s"
    by simp
  then show ?case
    by (auto simp: nth_Cons' Suc_diff_le)
next
  case (3 i result decoderState rest)
  let ?later = "Suc i \<le> j \<and> j < Suc i + length rest \<and> rest ! (j - Suc i) = Some s"
  have "result = Some (j, s) \<or> (i, decoderState) = (j, s) \<or> ?later"
  proof (cases "mReadyForCollection decoderState")
    case True
    with 3 show ?thesis by auto
  next
    case False
    show ?thesis
    proof (cases result)
      case None
      with False 3(2) 3(5) show ?thesis by auto
    next
      case (Some jr)
      obtain k r where jr: "jr = (k, r)" by (cases jr)
      show ?thesis
      proof (cases "mTimeStamp decoderState <s mTimeStamp r")
        case True
        with False Some jr 3(3) [OF False Some jr [symmetric]] 3(5) show ?thesis by auto
      next
        case other: False
        with False Some jr 3(4) [OF False Some jr [symmetric]] 3(5) show ?thesis by auto
      qed
    qed
  qed
  then show ?case
    by (auto simp: nth_Cons' Suc_diff_le)
qed

text \<open>
  The slot \<open>SeekToFrame\<close> writes to holds the state \<open>GetCurrentDecoderState\<close> returns.
\<close>

lemma currentSlot_holds_current:
  "currentSlotLoop 0 None (mActiveDecoders p) = Some (j, s) \<Longrightarrow>
     j < length (mActiveDecoders p) \<and> mActiveDecoders p ! j = Some s
     \<and> GetCurrentDecoderState p = Some s"
  using currentSlotLoop_slot [of 0 None "mActiveDecoders p" j s]
    currentSlot_is_current [of p]
  by auto

lemma GetCurrentDecoderState_None:
  "GetCurrentDecoderState p = None \<longleftrightarrow> liveStates (mActiveDecoders p) = []"
  by (simp add: GetCurrentDecoderState_def currentDecoderLoop_None)

lemma GetCurrentDecoderState_Some:
  assumes "GetCurrentDecoderState p = Some s"
  shows "s \<in> set (liveStates (mActiveDecoders p))"
    and "\<forall>t \<in> set (liveStates (mActiveDecoders p)). mTimeStamp s \<le>s mTimeStamp t"
  using currentDecoderLoop_Some [of None "mActiveDecoders p" s] assms
  by (auto simp: GetCurrentDecoderState_def)

text \<open>
  Claim C10. When no state of the table is live (present and not ready for collection),
  there is no current decoder state and \<open>GetCurrentFrame\<close> returns \<open>-1\<close>. Otherwise the
  current decoder state is a live state of the table whose time stamp is the smallest
  among the live states, and \<open>GetCurrentFrame\<close> returns its pending seek target when
  \<open>mFrameToSeek\<close> is not \<open>-1\<close>, and its \<open>mFramesRendered\<close> when no seek is pending.
\<close>

theorem GetCurrentFrame_current_decoder:
  "(liveStates (mActiveDecoders p) = [] \<longrightarrow>
      GetCurrentDecoderState p = None \<and> GetCurrentFrame p = - 1) \<and>
   (liveStates (mActiveDecoders p) \<noteq> [] \<longrightarrow>
      (\<exists>s. GetCurrentDecoderState p = Some s \<and>
           s \<in> set (liveStates (mActiveDecoders p)) \<and>
           (\<forall>t \<in> set (liveStates (mActiveDecoders p)). mTimeStamp s \<le>s mTimeStamp t) \<and>
           (mFrameToSeek s \<noteq> - 1 \<longrightarrow> GetCurrentFrame p = mFrameToSeek s) \<and>
           (mFrameToSeek s = - 1 \<longrightarrow> GetCurrentFrame p = mFramesRendered s)))"
proof (cases "GetCurrentDecoderState p")
  case None
  then have "liveStates (mActiveDecoders p) = []"
    by (simp add: GetCurrentDecoderState_None)
  with None show ?thesis
    by (simp add: GetCurrentFrame_def)
next
  case (Some s)
  then have live: "liveStates (mActiveDecoders p) \<noteq> []"
    using GetCurrentDecoderState_None [of p] by simp
  from GetCurrentDecoderState_Some [OF Some] Some live show ?thesis
    by (auto simp: GetCurrentFrame_def)
qed

text \<open>
  The theorem at three players: the new player has no live state; in the second pass
  of the handoff both states are live, the first is current and has rendered 512
  frames; with a seek to 5000 pending on it, 5000 is the current frame.
\<close>

theorem GetCurrentFrame_current_decoder_witness:
  "liveStates (mActiveDecoders newPlayer) = [] \<and> GetCurrentFrame newPlayer = - 1 \<and>
   liveStates (mActiveDecoders handoffSecondPass) \<noteq> [] \<and>
   GetCurrentFrame handoffSecondPass = 512 \<and>
   liveStates (mActiveDecoders seekPending) \<noteq> [] \<and>
   GetCurrentFrame seekPending = 5000"
proof -
  have a: "liveStates (mActiveDecoders newPlayer) = []"
    by code_simp
  have b: "liveStates (mActiveDecoders handoffSecondPass) \<noteq> []"
    by code_simp
  have c: "liveStates (mActiveDecoders seekPending) \<noteq> []"
    by code_simp
  have b': "map_option (\<lambda>s. (mFrameToSeek s, mFramesRendered s))
              (GetCurrentDecoderState handoffSecondPass) = Some (- 1, 512)"
    by code_simp
  have c': "map_option (\<lambda>s. (mFrameToSeek s, mFramesRendered s))
              (GetCurrentDecoderState seekPending) = Some (5000, 512)"
    by code_simp
  from GetCurrentFrame_current_decoder [of newPlayer] a
  have 1: "GetCurrentFrame newPlayer = - 1" by simp
  from GetCurrentFrame_current_decoder [of handoffSecondPass] b
  obtain s where "GetCurrentDecoderState handoffSecondPass = Some s"
    and "mFrameToSeek s = - 1 \<longrightarrow> GetCurrentFrame handoffSecondPass = mFramesRendered s"
    by blast
  with b' have 2: "GetCurrentFrame handoffSecondPass = 512" by auto
  from GetCurrentFrame_current_decoder [of seekPending] c
  obtain t where "GetCurrentDecoderState seekPending = Some t"
    and "mFrameToSeek t \<noteq> - 1 \<longrightarrow> GetCurrentFrame seekPending = mFrameToSeek t"
    by blast
  with c' have 3: "GetCurrentFrame seekPending = 5000" by auto
  from a b c 1 2 3 show ?thesis by simp
qed

subsection \<open>The render callback\<close>

lemma unat_ucast_UInt32: "unat (ucast (n :: UInt32) :: size_t) = unat n"
proof -
  have "unat n < 2 ^ 64"
    using unsigned_less [of n, where 'a = nat] by simp
  then show ?thesis
    by (simp add: unsigned_ucast_eq take_bit_nat_eq_self_iff)
qed

lemma unat_byteCount: "unat ((ucast (n :: UInt32) :: size_t) * 4) = 4 * unat n"
proof -
  have "unat n < 2 ^ 32" using unsigned_less [of n, where 'a = nat] by simp
  then have "4 * unat n < 2 ^ 64" by simp
  then show ?thesis
    by (simp add: unat_word_ariths unat_ucast_UInt32 mult.commute)
qed

lemma ucast_byteCount:
  "(ucast ((ucast (n :: UInt32) :: size_t) * 4) :: UInt32) = word_of_nat (4 * unat n)"
proof -
  have "(ucast ((ucast n :: size_t) * 4) :: UInt32) = word_of_nat (unat ((ucast n :: size_t) * 4))"
    by simp
  then show ?thesis by (simp only: unat_byteCount)
qed

lemma unat_small_byteCount:
  assumes "m < 2 ^ 30"
  shows "unat (word_of_nat (m * 4) :: UInt32) = m * 4"
proof -
  have "unat (word_of_nat (m * 4) :: UInt32) = (m * 4) mod 2 ^ LENGTH(32)"
    by (rule unat_of_nat)
  also have "\<dots> = m * 4"
    using assms by simp
  finally show ?thesis .
qed

lemma unat_grown_byteSize:
  assumes "unat (a :: UInt32) + m < 2 ^ 32"
  shows "unat (a + word_of_nat m) = unat a + m"
proof -
  from assms have "m < 2 ^ 32" by simp
  then have "unat (word_of_nat m :: UInt32) = m"
    by (simp add: unat_of_nat)
  with assms show ?thesis
    by (simp add: unat_word_ariths)
qed

lemma min_UInt32_le: "min_UInt32 a n \<le> n"
  by (auto simp: min_UInt32_def)

lemma unat_min_UInt32: "unat (min_UInt32 a n) = min (unat a) (unat n)"
  by (auto simp: min_UInt32_def word_less_nat_alt min_def)

text \<open>
  Claim C4. When the render callback runs with \<open>mFramesDecoded - mFramesRendered = 0\<close>,
  it returns \<^verbatim>\<open>noErr\<close>, leaves the player (and so the global \<open>mFramesRendered\<close>) as it
  was, sets the flag \<^verbatim>\<open>kAudioUnitRenderAction_OutputIsSilence\<close>, and in every output
  buffer writes zero to the first \<open>inNumberFrames * sizeof(float)\<close> bytes, leaves the
  bytes behind them alone and sets \<open>mDataByteSize\<close> to that count (as a \<^verbatim>\<open>UInt32\<close>).
\<close>

theorem Render_silence:
  assumes "mFramesDecoded p - mFramesRendered_global p = 0"
  shows "case Render Fetch p ioActionFlags inNumberFrames ioData of
           (status, p', flags', out) \<Rightarrow>
             status = noErr \<and> p' = p \<and>
             mFramesRendered_global p' = mFramesRendered_global p \<and>
             flags' = ioActionFlags OR kAudioUnitRenderAction_OutputIsSilence \<and>
             flags' AND kAudioUnitRenderAction_OutputIsSilence \<noteq> 0 \<and>
             length out = length ioData \<and>
             (\<forall>k<length ioData.
                (\<forall>i. mData (out ! k) i
                       = (if i < unat inNumberFrames * 4 then 0 else mData (ioData ! k) i)) \<and>
                mDataByteSize (out ! k) = word_of_nat (unat inNumberFrames * 4) \<and>
                (unat inNumberFrames < 2 ^ 30 \<longrightarrow>
                   unat (mDataByteSize (out ! k)) = unat inNumberFrames * 4) \<and>
                mNumberChannels (out ! k) = mNumberChannels (ioData ! k))"
proof -
  have flag: "(ioActionFlags OR kAudioUnitRenderAction_OutputIsSilence)
                AND kAudioUnitRenderAction_OutputIsSilence \<noteq> 0"
    by (simp add: kAudioUnitRenderAction_OutputIsSilence_def bit.conj_disj_distrib2)
  have buf: "\<And>b. silenceBuffer ((ucast inNumberFrames :: size_t) * 4) b
        = b\<lparr>mData := memset_zero (mData b) 0 (unat inNumberFrames * 4),
             mDataByteSize := word_of_nat (unat inNumberFrames * 4)\<rparr>"
    by (simp add: silenceBuffer_def unat_byteCount ucast_byteCount mult.commute)
  have small: "unat inNumberFrames < 2 ^ 30 \<longrightarrow>
                 unat (word_of_nat (unat inNumberFrames * 4) :: UInt32) = unat inNumberFrames * 4"
    using unat_small_byteCount [of "unat inNumberFrames"] by blast
  from assms flag small show ?thesis
    by (simp add: Render_def Let_def buf memset_zero_def del: of_nat_mult)
qed

text \<open>
  The silent start: the new player, asked for 512 frames into two buffers that hold
  the bytes 255 and 170.
\<close>

theorem Render_silence_witness:
  "mFramesDecoded newPlayer - mFramesRendered_global newPlayer = 0 \<and>
   (case Render fetchOK newPlayer 0 512 outputBuffers of
      (status, p', flags', out) \<Rightarrow>
        status = noErr \<and> p' = newPlayer \<and> flags' = 16 \<and> length out = 2 \<and>
        mData (out ! 0) 0 = 0 \<and> mData (out ! 0) 2047 = 0 \<and> mData (out ! 0) 2048 = 255 \<and>
        mData (out ! 1) 2047 = 0 \<and> mData (out ! 1) 2048 = 170 \<and>
        mDataByteSize (out ! 0) = 2048 \<and> mDataByteSize (out ! 1) = 2048)"
proof -
  have h: "mFramesDecoded newPlayer - mFramesRendered_global newPlayer = 0"
    by (simp add: newPlayer_def)
  have len: "length outputBuffers = 2"
    and b0: "mData (outputBuffers ! 0) = (\<lambda>i. 255)"
    and b1: "mData (outputBuffers ! 1) = (\<lambda>i. 170)"
    by (simp_all add: outputBuffers_def)
  from Render_silence [where p = newPlayer and Fetch = fetchOK and ioActionFlags = 0
      and inNumberFrames = 512 and ioData = outputBuffers, OF h] h len b0 b1 show ?thesis
    by (auto simp: kAudioUnitRenderAction_OutputIsSilence_def split: prod.splits)
qed

text \<open>
  The difference of the two counters survives the cast to \<^verbatim>\<open>UInt32\<close> when it lies between
  0 and \<open>2\<^sup>3\<^sup>2 - 1\<close>, as it does while the ring holds at most its 16384 frames.
\<close>

lemma framesAvailableToRead_exact:
  assumes "0 \<le> sint d" and "sint d < 2 ^ 32"
  shows "uint (ucast (d :: SInt64) :: UInt32) = sint d"
proof -
  have "uint (ucast d :: UInt32) = take_bit 32 (uint d)"
    by (simp add: unsigned_ucast_eq)
  also have "uint d = take_bit 64 (sint d)"
    using uint_sint [of d] by simp
  also have "take_bit 32 (take_bit 64 (sint d)) = take_bit 32 (sint d)"
    by simp
  also have "\<dots> = sint d"
    using assms by (simp add: take_bit_int_eq_self)
  finally show ?thesis .
qed

lemma unat_tail_byteCount:
  assumes "t \<le> (n :: UInt32)"
  shows "unat ((ucast (n - t) :: size_t) * 4) = (unat n - unat t) * 4"
  using assms by (simp add: unat_byteCount unat_sub)

lemma ucast_tail_byteCount:
  assumes "t \<le> (n :: UInt32)"
  shows "(ucast ((ucast (n - t) :: size_t) * 4) :: UInt32) = word_of_nat ((unat n - unat t) * 4)"
proof -
  have "(ucast ((ucast (n - t) :: size_t) * 4) :: UInt32) = word_of_nat (4 * unat (n - t))"
    by (rule ucast_byteCount)
  also have "4 * unat (n - t) = (unat n - unat t) * 4"
    using assms by (simp add: unat_sub)
  finally show ?thesis .
qed

text \<open>
  Claim C5. Let \<open>framesAvailableToRead\<close> be what the source computes, the difference
  \<open>mFramesDecoded - mFramesRendered\<close> as a \<^verbatim>\<open>UInt32\<close> (the difference itself when that
  lies between 0 and \<open>2\<^sup>3\<^sup>2 - 1\<close>), and let it be positive. The render
  callback then asks the ring buffer for
  \<open>framesToRead = min(framesAvailableToRead, inNumberFrames)\<close> frames from index
  \<open>mFramesRendered\<close>. When the ring buffer answers \<^verbatim>\<open>kCARingBufferError_OK\<close> the callback
  returns \<^verbatim>\<open>noErr\<close>, has added \<open>framesToRead\<close> to the global \<open>mFramesRendered\<close>, and in
  every buffer has written zero to the bytes of the frames from \<open>framesToRead\<close> up to
  \<open>inNumberFrames\<close> and added \<open>(inNumberFrames - framesToRead) * sizeof(float)\<close> to
  \<open>mDataByteSize\<close> (nothing when the two are equal). When the ring buffer answers an
  error the callback returns \<^verbatim>\<open>ioErr\<close> and the player is as it was.
\<close>

theorem Render_fetch:
  assumes avail: "framesAvailableToRead
                    = (ucast (mFramesDecoded p - mFramesRendered_global p) :: UInt32)"
    and pos: "0 < framesAvailableToRead"
    and take: "framesToRead = min_UInt32 framesAvailableToRead inNumberFrames"
    and fetch: "Fetch ioData framesToRead (mFramesRendered_global p) = (result, fetched)"
  shows "case Render Fetch p ioActionFlags inNumberFrames ioData of
           (status, p', flags', out) \<Rightarrow>
             (0 \<le> sint (mFramesDecoded p - mFramesRendered_global p) \<and>
              sint (mFramesDecoded p - mFramesRendered_global p) < 2 ^ 32 \<longrightarrow>
                uint framesAvailableToRead
                  = sint (mFramesDecoded p - mFramesRendered_global p)) \<and>
             unat framesToRead = min (unat framesAvailableToRead) (unat inNumberFrames) \<and>
             (result = kCARingBufferError_OK \<longrightarrow>
                status = noErr \<and>
                mFramesRendered_global p' = mFramesRendered_global p + ucast framesToRead \<and>
                mFramesRenderedLastPass p' = framesToRead \<and>
                length out = length fetched \<and>
                (\<forall>k<length fetched.
                   (\<forall>i. mData (out ! k) i
                          = (if unat framesToRead * 4 \<le> i \<and> i < unat inNumberFrames * 4
                             then 0 else mData (fetched ! k) i)) \<and>
                   mDataByteSize (out ! k)
                     = mDataByteSize (fetched ! k)
                       + word_of_nat ((unat inNumberFrames - unat framesToRead) * 4) \<and>
                   (unat (mDataByteSize (fetched ! k))
                      + (unat inNumberFrames - unat framesToRead) * 4 < 2 ^ 32 \<longrightarrow>
                    unat (mDataByteSize (out ! k))
                      = unat (mDataByteSize (fetched ! k))
                        + (unat inNumberFrames - unat framesToRead) * 4))) \<and>
             (result \<noteq> kCARingBufferError_OK \<longrightarrow>
                status = ioErr \<and> p' = p \<and> mFramesRendered_global p' = mFramesRendered_global p)"
proof -
  have le: "framesToRead \<le> inNumberFrames"
    by (simp add: take min_UInt32_le)
  then have le': "unat framesToRead \<le> unat inNumberFrames"
    by (simp add: word_le_nat_alt)
  have nz: "0 \<noteq> (ucast (mFramesDecoded p - mFramesRendered_global p) :: UInt32)"
    using pos avail by auto
  have fetch': "Fetch ioData (min_UInt32 (ucast (mFramesDecoded p - mFramesRendered_global p))
                   inNumberFrames) (mFramesRendered_global p) = (result, fetched)"
    using fetch by (simp add: take avail)
  have tail: "\<And>b. silenceTail framesToRead ((ucast (inNumberFrames - framesToRead) :: size_t) * 4) b
        = b\<lparr>mData := memset_zero (mData b) (4 * unat framesToRead)
                        ((unat inNumberFrames - unat framesToRead) * 4),
             mDataByteSize := mDataByteSize b
               + word_of_nat ((unat inNumberFrames - unat framesToRead) * 4)\<rparr>"
    by (simp only: silenceTail_def unat_tail_byteCount [OF le] ucast_tail_byteCount [OF le])
  have range: "\<And>i. (4 * unat framesToRead \<le> i
                    \<and> i < 4 * unat framesToRead + (unat inNumberFrames - unat framesToRead) * 4)
                 \<longleftrightarrow> (unat framesToRead * 4 \<le> i \<and> i < unat inNumberFrames * 4)"
    using le' by auto
  have fold: "min_UInt32 (ucast (mFramesDecoded p - mFramesRendered_global p)) inNumberFrames
                = framesToRead"
    by (simp add: take avail)
  have c1: "unat framesToRead = min (unat framesAvailableToRead) (unat inNumberFrames)"
    by (simp add: take unat_min_UInt32)
  have c2: "case Render Fetch p ioActionFlags inNumberFrames ioData of
           (status, p', flags', out) \<Rightarrow>
             (result = kCARingBufferError_OK \<longrightarrow>
                status = noErr \<and>
                mFramesRendered_global p' = mFramesRendered_global p + ucast framesToRead \<and>
                mFramesRenderedLastPass p' = framesToRead \<and>
                length out = length fetched \<and>
                (\<forall>k<length fetched.
                   (\<forall>i. mData (out ! k) i
                          = (if unat framesToRead * 4 \<le> i \<and> i < unat inNumberFrames * 4
                             then 0 else mData (fetched ! k) i)) \<and>
                   mDataByteSize (out ! k)
                     = mDataByteSize (fetched ! k)
                       + word_of_nat ((unat inNumberFrames - unat framesToRead) * 4) \<and>
                   (unat (mDataByteSize (fetched ! k))
                      + (unat inNumberFrames - unat framesToRead) * 4 < 2 ^ 32 \<longrightarrow>
                    unat (mDataByteSize (out ! k))
                      = unat (mDataByteSize (fetched ! k))
                        + (unat inNumberFrames - unat framesToRead) * 4))) \<and>
             (result \<noteq> kCARingBufferError_OK \<longrightarrow>
                status = ioErr \<and> p' = p \<and> mFramesRendered_global p' = mFramesRendered_global p)"
  proof (cases "result = kCARingBufferError_OK")
    case False
    with nz fetch' show ?thesis
      by (simp add: Render_def Let_def)
  next
    case True
    show ?thesis
    proof (cases "framesToRead = inNumberFrames")
      case same: True
      with True nz fetch' fold show ?thesis
        by (auto simp: Render_def Let_def emit_def)
    next
      case differ: False
      with True nz fetch' fold show ?thesis
        by (simp add: Render_def Let_def emit_def tail memset_zero_def range
            unat_grown_byteSize del: of_nat_mult of_nat_diff)
    qed
  qed
  have c0: "0 \<le> sint (mFramesDecoded p - mFramesRendered_global p) \<and>
            sint (mFramesDecoded p - mFramesRendered_global p) < 2 ^ 32 \<longrightarrow>
              uint framesAvailableToRead = sint (mFramesDecoded p - mFramesRendered_global p)"
    by (simp add: avail framesAvailableToRead_exact)
  from c0 c1 c2 show ?thesis
    by (simp split: prod.splits)
qed

text \<open>
  The underrun: 476 frames are available for a pass of 512, so the last 36 frames of
  each buffer are zeroed and the 1904 bytes the ring buffer reported grow to 2048; with
  a ring buffer that refuses, the callback returns \<^verbatim>\<open>ioErr\<close>.
\<close>

theorem Render_fetch_witness:
  "(0 :: UInt32) < 476 \<and>
   (ucast (mFramesDecoded underrunPlayer - mFramesRendered_global underrunPlayer) :: UInt32) = 476 \<and>
   min_UInt32 476 512 = 476 \<and>
   (case Render fetchOK underrunPlayer 0 512 outputBuffers of
      (status, p', flags', out) \<Rightarrow>
        status = noErr \<and> mFramesRendered_global p' = 1500 \<and>
        mFramesRenderedLastPass p' = 476 \<and>
        mData (out ! 0) 1903 = 255 \<and> mData (out ! 0) 1904 = 0 \<and>
        mData (out ! 0) 2047 = 0 \<and> mData (out ! 0) 2048 = 255 \<and>
        mDataByteSize (out ! 0) = 2048) \<and>
   (case Render fetchFails underrunPlayer 0 512 outputBuffers of
      (status, p', flags', out) \<Rightarrow> status = ioErr \<and> p' = underrunPlayer)"
proof -
  have avail: "(476 :: UInt32)
                 = ucast (mFramesDecoded underrunPlayer - mFramesRendered_global underrunPlayer)"
    by code_simp
  have rendered: "mFramesRendered_global underrunPlayer = 1024"
    by code_simp
  have pos: "(0 :: UInt32) < 476" by simp
  have take: "(476 :: UInt32) = min_UInt32 476 512"
    by (simp add: min_UInt32_def)
  have ok: "fetchOK outputBuffers 476 (mFramesRendered_global underrunPlayer)
              = (kCARingBufferError_OK, map (\<lambda>b. b\<lparr>mDataByteSize := 4 * 476\<rparr>) outputBuffers)"
    by (simp add: fetchOK_def)
  have bad: "fetchFails outputBuffers 476 (mFramesRendered_global underrunPlayer)
               = (4, outputBuffers)"
    by (simp add: fetchFails_def)
  have ne: "(4 :: CARingBufferError) \<noteq> kCARingBufferError_OK"
    by (simp add: kCARingBufferError_OK_def)
  from Render_fetch [where p = underrunPlayer and Fetch = fetchOK and ioData = outputBuffers
      and framesAvailableToRead = 476 and inNumberFrames = 512 and framesToRead = 476
      and ioActionFlags = 0, OF avail pos take ok]
  have 1: "case Render fetchOK underrunPlayer 0 512 outputBuffers of
      (status, p', flags', out) \<Rightarrow>
        status = noErr \<and> mFramesRendered_global p' = 1500 \<and>
        mFramesRenderedLastPass p' = 476 \<and>
        mData (out ! 0) 1903 = 255 \<and> mData (out ! 0) 1904 = 0 \<and>
        mData (out ! 0) 2047 = 0 \<and> mData (out ! 0) 2048 = 255 \<and>
        mDataByteSize (out ! 0) = 2048"
    by (auto simp: rendered outputBuffers_def split: prod.splits)
  from Render_fetch [where p = underrunPlayer and Fetch = fetchFails and ioData = outputBuffers
      and framesAvailableToRead = 476 and inNumberFrames = 512 and framesToRead = 476
      and ioActionFlags = 0, OF avail pos take bad] ne
  have 2: "case Render fetchFails underrunPlayer 0 512 outputBuffers of
      (status, p', flags', out) \<Rightarrow> status = ioErr \<and> p' = underrunPlayer"
    by (auto split: prod.splits)
  from avail pos take 1 2 show ?thesis by simp
qed

subsection \<open>Stop\<close>

text \<open>
  Claim C3, amended. In a player state in which the graph is running, \<open>Stop\<close> sets
  \<open>mFramesDecoded\<close>, \<open>mFramesRendered\<close> and \<open>mNextDecoderStartingTimeStamp\<close> to 0 and, in
  every slot of the table that holds a state, clears \<open>mKeepDecoding\<close> and sets
  \<open>mReadyForCollection\<close>, leaving the other fields and the empty slots alone. In a player
  state in which the graph is not running, \<open>Stop\<close> changes nothing.
\<close>

theorem Stop_when_playing:
  "(IsPlaying p \<longrightarrow>
      mFramesDecoded (Stop p) = 0 \<and> mFramesRendered_global (Stop p) = 0 \<and>
      mNextDecoderStartingTimeStamp (Stop p) = 0 \<and>
      mActiveDecoders (Stop p)
        = map (map_option (\<lambda>s. s\<lparr>mKeepDecoding := False, mReadyForCollection := True\<rparr>))
            (mActiveDecoders p) \<and>
      (\<forall>s. Some s \<in> set (mActiveDecoders (Stop p))
            \<longrightarrow> \<not> mKeepDecoding s \<and> mReadyForCollection s)) \<and>
   (\<not> IsPlaying p \<longrightarrow> Stop p = p)"
proof -
  have stop: "stopDecoderState = (\<lambda>s. s\<lparr>mKeepDecoding := False, mReadyForCollection := True\<rparr>)"
    by (simp add: fun_eq_iff stopDecoderState_def)
  have flags: "\<not> mKeepDecoding s \<and> mReadyForCollection s"
    if "Some s = map_option (\<lambda>s. s\<lparr>mKeepDecoding := False, mReadyForCollection := True\<rparr>) x"
    for s x
    using that by (cases x) auto
  show ?thesis
    by (auto simp: Stop_def Pause_def IsPlaying_def StopActiveDecoders_def ResetAUGraph_def
        emit_def stop dest: flags)
qed

text \<open>
  The claim as stated, for every player state, fails where the graph is not running:
  on the paused handoff \<open>Stop\<close> returns at its guard, the three counters keep their
  values 1500, 1024 and 1000, and the second state keeps decoding.
\<close>

theorem Stop_not_playing_counterexample:
  "\<not> IsPlaying pausedHandoff \<and>
   mFramesDecoded (Stop pausedHandoff) = 1500 \<and>
   mFramesRendered_global (Stop pausedHandoff) = 1024 \<and>
   mNextDecoderStartingTimeStamp (Stop pausedHandoff) = 1000 \<and>
   map (map_option mKeepDecoding) (mActiveDecoders (Stop pausedHandoff))
     = [Some False, Some True, None, None, None, None, None, None] \<and>
   map (map_option mReadyForCollection) (mActiveDecoders (Stop pausedHandoff))
     = [Some False, Some False, None, None, None, None, None, None]"
  by code_simp

text \<open>
  The amended claim at the second pass of the handoff, where the graph is running, and
  at the paused handoff.
\<close>

theorem Stop_when_playing_witness:
  "IsPlaying handoffSecondPass \<and>
   mFramesDecoded handoffSecondPass = 1500 \<and>
   mFramesDecoded (Stop handoffSecondPass) = 0 \<and>
   mFramesRendered_global (Stop handoffSecondPass) = 0 \<and>
   mNextDecoderStartingTimeStamp (Stop handoffSecondPass) = 0 \<and>
   map (map_option mKeepDecoding) (mActiveDecoders (Stop handoffSecondPass))
     = [Some False, Some False, None, None, None, None, None, None] \<and>
   map (map_option mReadyForCollection) (mActiveDecoders (Stop handoffSecondPass))
     = [Some True, Some True, None, None, None, None, None, None] \<and>
   \<not> IsPlaying pausedHandoff \<and> Stop pausedHandoff = pausedHandoff"
proof -
  have a: "IsPlaying handoffSecondPass" by code_simp
  have b: "\<not> IsPlaying pausedHandoff" by code_simp
  have c: "mFramesDecoded handoffSecondPass = 1500" by code_simp
  have d: "map (map_option (\<lambda>s. ())) (mActiveDecoders handoffSecondPass)
             = [Some (), Some (), None, None, None, None, None, None]"
    by code_simp
  have e: "\<And>f. map (map_option f) (map (map_option
                   (\<lambda>s. s\<lparr>mKeepDecoding := False, mReadyForCollection := True\<rparr>)) t)
             = map (map_option (\<lambda>s. f (s\<lparr>mKeepDecoding := False, mReadyForCollection := True\<rparr>))) t" for t
    by (simp add: option.map_comp comp_def)
  from Stop_when_playing [of handoffSecondPass] a
  have 1: "mFramesDecoded (Stop handoffSecondPass) = 0"
    "mFramesRendered_global (Stop handoffSecondPass) = 0"
    "mNextDecoderStartingTimeStamp (Stop handoffSecondPass) = 0"
    "mActiveDecoders (Stop handoffSecondPass)
        = map (map_option (\<lambda>s. s\<lparr>mKeepDecoding := False, mReadyForCollection := True\<rparr>))
            (mActiveDecoders handoffSecondPass)"
    by simp_all
  have 2: "map (map_option mKeepDecoding) (mActiveDecoders (Stop handoffSecondPass))
     = map (map_option (\<lambda>s. False)) (map (map_option (\<lambda>s. ())) (mActiveDecoders handoffSecondPass))"
    by (simp add: 1(4) option.map_comp comp_def)
  have 3: "map (map_option mReadyForCollection) (mActiveDecoders (Stop handoffSecondPass))
     = map (map_option (\<lambda>s. True)) (map (map_option (\<lambda>s. ())) (mActiveDecoders handoffSecondPass))"
    by (simp add: 1(4) option.map_comp comp_def)
  from Stop_when_playing [of pausedHandoff] b
  have 4: "Stop pausedHandoff = pausedHandoff" by simp
  from a b c 1 2 3 4 show ?thesis by (simp add: d)
qed

subsection \<open>Post-render accounting\<close>

lemma sint_ucast_UInt32: "sint (ucast (n :: UInt32) :: SInt64) = uint n"
proof -
  have "uint n < 2 ^ 32" using unsigned_less [of n, where 'a = int] by simp
  then have "uint n < 2 ^ 63" by simp
  moreover have "- (2 ^ 63) \<le> uint n"
    by (rule order_trans [of _ 0]) simp_all
  ultimately show ?thesis
    by (simp add: signed_ucast_eq signed_take_bit_int_eq_self)
qed

lemma lastPass_positive: "lastPass \<noteq> 0 \<Longrightarrow> 0 <s (ucast (lastPass :: UInt32) :: SInt64)"
proof -
  assume "lastPass \<noteq> 0"
  then have "uint lastPass \<noteq> 0"
    by (simp add: unsigned_eq_0_iff)
  moreover have "0 \<le> uint lastPass"
    by simp
  ultimately have "0 < uint lastPass"
    by linarith
  then show ?thesis
    by (simp add: word_sless_alt sint_ucast_UInt32)
qed

lemma accountDecoder_started:
  "RenderingStarted d \<in> set (fst (snd (accountDecoder lastPass s)))
     \<longleftrightarrow> d = decoderId (mDecoder s) \<and> mFramesRendered s = 0"
  by (auto simp: accountDecoder_def Let_def)

lemma distributeFrames_events:
  "snd (distributeFrames lastPass remaining table)
     = concat (map (\<lambda>s. fst (snd (accountDecoder lastPass s)))
                 (visitedStates lastPass remaining table))"
  by (induction lastPass remaining table rule: distributeFrames.induct)
     (auto split: prod.splits)

lemma framesFromThisDecoder_positive:
  assumes "mFramesRendered s = 0" and "lastPass \<noteq> 0"
  shows "0 <s snd (snd (accountDecoder lastPass s)) \<longleftrightarrow> 0 <s mTotalFrames s"
proof -
  have give: "snd (snd (accountDecoder lastPass s)) = min_SInt64 (mTotalFrames s) (ucast lastPass)"
    using assms(1) by (simp add: accountDecoder_def Let_def)
  from lastPass_positive [OF assms(2)] show ?thesis
    unfolding give min_SInt64_def
    by (auto simp: word_sless_alt)
qed

text \<open>
  Claim C9, amended. In post-render accounting the rendering-started notification of a
  state is issued exactly when its \<open>mFramesRendered\<close> is 0 at the time it is visited,
  whatever number of frames the pass then attributes to it: over the whole loop, the
  notification of decoder \<open>d\<close> is issued exactly when a visited state of \<open>d\<close> has
  \<open>mFramesRendered = 0\<close>. For such a state (and a pass that rendered frames) the
  number of frames attributed is positive exactly when its \<open>mTotalFrames\<close> is positive.
\<close>

theorem RenderingStarted_fired:
  "(RenderingStarted (decoderId (mDecoder s)) \<in> set (fst (snd (accountDecoder lastPass s)))
      \<longleftrightarrow> mFramesRendered s = 0) \<and>
   (RenderingStarted d \<in> set (snd (distributeFrames lastPass remaining table))
      \<longleftrightarrow> (\<exists>t \<in> set (visitedStates lastPass remaining table).
             decoderId (mDecoder t) = d \<and> mFramesRendered t = 0)) \<and>
   (mFramesRendered s = 0 \<and> lastPass \<noteq> 0 \<longrightarrow>
      (0 <s snd (snd (accountDecoder lastPass s)) \<longleftrightarrow> 0 <s mTotalFrames s))"
  by (auto simp: accountDecoder_started distributeFrames_events framesFromThisDecoder_positive)

text \<open>
  The claim as stated asks for a positive number of attributed frames. After the first
  decoder's 1000 frames are rendered, the state of the empty stream is the one state
  the next post-render callback visits: nothing has been rendered from it, the pass
  attributes 0 frames to it, and its rendering-started notification is issued.
\<close>

theorem RenderingStarted_without_frames_counterexample:
  "mActiveDecoders emptyHandoff ! 1 = Some emptyState \<and>
   mFramesRenderedLastPass emptyHandoff = 1000 \<and>
   visitedStates 1000 1000 (mActiveDecoders emptyHandoff) = [emptyState] \<and>
   mFramesRendered emptyState = 0 \<and>
   snd (snd (accountDecoder 1000 emptyState)) = 0 \<and>
   RenderingStarted 4 \<in> set (fst (snd (accountDecoder 1000 emptyState))) \<and>
   \<not> (RenderingStarted 4 \<in> set (fst (snd (accountDecoder 1000 emptyState)))
        \<longleftrightarrow> mFramesRendered emptyState = 0 \<and> 0 <s snd (snd (accountDecoder 1000 emptyState))) \<and>
   events (snd (DidRender emptyHandoff kAudioUnitRenderAction_PostRender))
     = events emptyHandoff
       @ [RenderingStarted 4, RenderingFinished 4, SignalCollectorSemaphore,
          SignalDecoderSemaphore, SignalCollectorSemaphore, GraphReset]"
  by code_simp

text \<open>
  The amended claim at the state of the empty stream, and at the first pass of the
  handoff, which visits the first state only.
\<close>

theorem RenderingStarted_fired_witness:
  "mFramesRendered emptyState = 0 \<and>
   RenderingStarted 4 \<in> set (fst (snd (accountDecoder 1000 emptyState))) \<and>
   RenderingStarted 1 \<in> set (snd (distributeFrames 512 512 (mActiveDecoders handoffDecoded))) \<and>
   RenderingStarted 2 \<notin> set (snd (distributeFrames 512 512 (mActiveDecoders handoffDecoded))) \<and>
   \<not> 0 <s snd (snd (accountDecoder 1000 emptyState))"
proof -
  have a: "mFramesRendered emptyState = 0" "decoderId (mDecoder emptyState) = 4"
    "\<not> 0 <s mTotalFrames emptyState"
    by (simp_all add: emptyState_def decoderEmpty_def)
  have v: "map (\<lambda>t. (decoderId (mDecoder t), mFramesRendered t))
             (visitedStates 512 512 (mActiveDecoders handoffDecoded)) = [(1, 0)]"
    by code_simp
  have v1: "\<exists>t \<in> set (visitedStates 512 512 (mActiveDecoders handoffDecoded)).
              decoderId (mDecoder t) = 1 \<and> mFramesRendered t = 0"
    using v by (auto simp: map_eq_Cons_conv)
  have v2: "\<not> (\<exists>t \<in> set (visitedStates 512 512 (mActiveDecoders handoffDecoded)).
              decoderId (mDecoder t) = 2 \<and> mFramesRendered t = 0)"
    using v by (auto simp: map_eq_Cons_conv)
  from RenderingStarted_fired [where s = emptyState and lastPass = 1000 and d = 1
      and remaining = 1000 and table = "[]"]
    RenderingStarted_fired [where s = emptyState and lastPass = 512 and d = 1
      and remaining = 512 and table = "mActiveDecoders handoffDecoded"]
    RenderingStarted_fired [where s = emptyState and lastPass = 512 and d = 2
      and remaining = 512 and table = "mActiveDecoders handoffDecoded"]
    a v1 v2
  show ?thesis by simp
qed

text \<open>
  Claim C1. The claim does not hold of the source: \<open>framesFromThisDecoder\<close> is the
  minimum of the state's unrendered frames and \<open>mFramesRenderedLastPass\<close>, not of the
  frames of the pass that remain to be distributed. In the second pass of the handoff
  512 frames were rendered. The first state has 488 frames left and receives them; 24
  frames of the pass remain, and the second state receives \<open>min(500, 512) = 500\<close>
  frames where the claim gives it \<open>min(500, 24) = 24\<close>. The pass attributes 988 frames.
\<close>

theorem DidRender_attributes_beyond_lastPass:
  "mFramesRenderedLastPass handoffSecondPass = 512 \<and>
   map (map_option mTotalFrames) (take 2 (mActiveDecoders handoffSecondPass))
     = [Some 1000, Some 500] \<and>
   map (map_option mFramesRendered) (take 2 (mActiveDecoders handoffSecondPass))
     = [Some 512, Some 0] \<and>
   map (map_option mFramesRendered)
       (take 2 (mActiveDecoders (distributeLastPass handoffSecondPass)))
     = [Some 1000, Some 500] \<and>
   map (map_option mFramesRendered)
       (take 2 (mActiveDecoders
                  (snd (DidRender handoffSecondPass kAudioUnitRenderAction_PostRender))))
     = [Some 1000, Some 500] \<and>
   min_SInt64 (500 - 0) (512 - (1000 - 512)) = 24 \<and>
   (1000 - 512) + (500 - 0) = (988 :: SInt64)"
  by code_simp

subsection \<open>The reader thread: seeking\<close>

lemma updateState_nth:
  "i < length (mActiveDecoders p) \<Longrightarrow> mActiveDecoders p ! i = Some s \<Longrightarrow>
     mActiveDecoders (updateState i f p) = (mActiveDecoders p)[i := Some (f s)]"
  by (simp add: updateState_def)

lemma updateState_fields [simp]:
  "mFramesDecoded (updateState i f p) = mFramesDecoded p"
  "mFramesRendered_global (updateState i f p) = mFramesRendered_global p"
  "mNextDecoderStartingTimeStamp (updateState i f p) = mNextDecoderStartingTimeStamp p"
  "mDecoderQueue (updateState i f p) = mDecoderQueue p"
  "mFramesRenderedLastPass (updateState i f p) = mFramesRenderedLastPass p"
  "graphIsRunning (updateState i f p) = graphIsRunning p"
  "events (updateState i f p) = events p"
  "length (mActiveDecoders (updateState i f p)) = length (mActiveDecoders p)"
  by (simp_all add: updateState_def)

lemma seekRequested_landed:
  assumes "i < length (mActiveDecoders p)" and "mActiveDecoders p ! i = Some s"
    and "newFrame a \<noteq> - 1"
  shows "seekRequested a i p =
           p\<lparr>mActiveDecoders :=
                (mActiveDecoders p)[i := Some (s\<lparr>mFrameToSeek := - 1,
                                                mFramesRendered := newFrame a\<rparr>)],
             mFramesDecoded := mFramesDecoded p + (newFrame a - currentFrameBeforeSeeking a),
             mFramesRendered_global :=
               mFramesDecoded p + (newFrame a - currentFrameBeforeSeeking a),
             events := events p @ [GraphReset]\<rparr>"
  using assms
  by (simp add: seekRequested_def Let_def updateState_def ResetAUGraph_def emit_def)

lemma seekRequested_failed:
  assumes "i < length (mActiveDecoders p)" and "mActiveDecoders p ! i = Some s"
    and "newFrame a = - 1"
  shows "seekRequested a i p =
           p\<lparr>mActiveDecoders := (mActiveDecoders p)[i := Some (s\<lparr>mFrameToSeek := - 1\<rparr>)]\<rparr>"
  using assms
  by (simp add: seekRequested_def Let_def updateState_def)

lemma room_after_seek:
  "RING_BUFFER_WRITE_CHUNK_SIZE_FRAMES \<le> (ucast (RING_BUFFER_SIZE_FRAMES - (x - x)) :: UInt32)"
  by (simp add: RING_BUFFER_WRITE_CHUNK_SIZE_FRAMES_def RING_BUFFER_SIZE_FRAMES_def)

lemma readerIteration_seek:
  assumes i: "i < length (mActiveDecoders p)" and s: "mActiveDecoders p ! i = Some s"
    and thread: "mDecodingThread s \<noteq> 0"
    and room: "RING_BUFFER_WRITE_CHUNK_SIZE_FRAMES
                 \<le> (ucast (RING_BUFFER_SIZE_FRAMES
                             - (mFramesDecoded p - mFramesRendered_global p)) :: UInt32)"
    and pending: "mFrameToSeek s \<noteq> - 1"
  shows "readerIteration h a i p = readerIteration h a i (seekRequested a i p)"
proof (cases "newFrame a = - 1")
  case True
  from seekRequested_failed [OF i s True] i s thread room pending show ?thesis
    by (simp add: readerIteration_def Let_def)
next
  case False
  from seekRequested_landed [OF i s False] i s thread room pending room_after_seek
  show ?thesis
    by (simp add: readerIteration_def Let_def)
qed

text \<open>
  Claim C7, amended. The reader serves a pending seek of its state, the decoder being
  at frame \<open>currentFrameBeforeSeeking\<close> and answering \<open>newFrame\<close>. For every answer but
  \<open>-1\<close>, negative ones included, the state's \<open>mFramesRendered\<close> becomes \<open>newFrame\<close>,
  \<open>newFrame - currentFrameBeforeSeeking\<close> is added to the global \<open>mFramesDecoded\<close>, the
  global \<open>mFramesRendered\<close> is set to \<open>mFramesDecoded\<close>, and the audio graph is reset. For
  the answer \<open>-1\<close> no counter changes and the graph is not reset. In both cases
  \<open>mFrameToSeek\<close> is \<open>-1\<close> afterwards and nothing else of the state changes. A pass of
  the reader's loop that finds room in the ring and a seek pending does this first and
  goes on as a pass without pending seek does from there.
\<close>

theorem seekRequested_counters:
  assumes i: "i < length (mActiveDecoders p)" and s: "mActiveDecoders p ! i = Some s"
  shows "(newFrame a \<noteq> - 1 \<longrightarrow>
            mActiveDecoders (seekRequested a i p)
              = (mActiveDecoders p)[i := Some (s\<lparr>mFrameToSeek := - 1,
                                               mFramesRendered := newFrame a\<rparr>)] \<and>
            mFramesDecoded (seekRequested a i p)
              = mFramesDecoded p + (newFrame a - currentFrameBeforeSeeking a) \<and>
            mFramesRendered_global (seekRequested a i p)
              = mFramesDecoded (seekRequested a i p) \<and>
            events (seekRequested a i p) = events p @ [GraphReset]) \<and>
         (newFrame a = - 1 \<longrightarrow>
            mActiveDecoders (seekRequested a i p)
              = (mActiveDecoders p)[i := Some (s\<lparr>mFrameToSeek := - 1\<rparr>)] \<and>
            mFramesDecoded (seekRequested a i p) = mFramesDecoded p \<and>
            mFramesRendered_global (seekRequested a i p) = mFramesRendered_global p \<and>
            events (seekRequested a i p) = events p) \<and>
         (mDecodingThread s \<noteq> 0 \<and> mFrameToSeek s \<noteq> - 1 \<and>
          RING_BUFFER_WRITE_CHUNK_SIZE_FRAMES
            \<le> (ucast (RING_BUFFER_SIZE_FRAMES
                        - (mFramesDecoded p - mFramesRendered_global p)) :: UInt32) \<longrightarrow>
            readerIteration h a i p = readerIteration h a i (seekRequested a i p))"
proof (intro conjI impI)
  assume landed: "newFrame a \<noteq> - 1"
  note eq = seekRequested_landed [OF i s landed]
  show "mActiveDecoders (seekRequested a i p)
          = (mActiveDecoders p)[i := Some (s\<lparr>mFrameToSeek := - 1,
                                           mFramesRendered := newFrame a\<rparr>)]"
    by (simp add: eq)
  show "mFramesDecoded (seekRequested a i p)
          = mFramesDecoded p + (newFrame a - currentFrameBeforeSeeking a)"
    by (simp add: eq)
  show "mFramesRendered_global (seekRequested a i p) = mFramesDecoded (seekRequested a i p)"
    by (simp add: eq)
  show "events (seekRequested a i p) = events p @ [GraphReset]"
    by (simp add: eq)
next
  assume failed: "newFrame a = - 1"
  note eq = seekRequested_failed [OF i s failed]
  show "mActiveDecoders (seekRequested a i p)
          = (mActiveDecoders p)[i := Some (s\<lparr>mFrameToSeek := - 1\<rparr>)]"
    by (simp add: eq)
  show "mFramesDecoded (seekRequested a i p) = mFramesDecoded p"
    by (simp add: eq)
  show "mFramesRendered_global (seekRequested a i p) = mFramesRendered_global p"
    by (simp add: eq)
  show "events (seekRequested a i p) = events p"
    by (simp add: eq)
next
  assume "mDecodingThread s \<noteq> 0 \<and> mFrameToSeek s \<noteq> - 1 \<and>
          RING_BUFFER_WRITE_CHUNK_SIZE_FRAMES
            \<le> (ucast (RING_BUFFER_SIZE_FRAMES
                        - (mFramesDecoded p - mFramesRendered_global p)) :: UInt32)"
  then show "readerIteration h a i p = readerIteration h a i (seekRequested a i p)"
    using readerIteration_seek [OF i s] by blast
qed

text \<open>
  The claim as stated takes every negative answer of the decoder for a failed seek.
  The source tests \<^verbatim>\<open>-1 != newFrame\<close>: on the answer \<open>-2\<close> the state's counter and both
  global counters become \<open>-2\<close> and the graph is reset.
\<close>

theorem seek_negative_return_counterexample:
  "map_option mFrameToSeek (mActiveDecoders seekingPlayer ! 0) = Some 20000 \<and>
   map_option mFramesRendered (mActiveDecoders seekingPlayer ! 0) = Some 1024 \<and>
   mFramesDecoded seekingPlayer = 4096 \<and>
   mFramesRendered_global seekingPlayer = 1024 \<and>
   newFrame seekReturnsMinus2 <s 0 \<and>
   map_option mFramesRendered
     (mActiveDecoders (seekRequested seekReturnsMinus2 0 seekingPlayer) ! 0) = Some (- 2) \<and>
   mFramesDecoded (seekRequested seekReturnsMinus2 0 seekingPlayer) = - 2 \<and>
   mFramesRendered_global (seekRequested seekReturnsMinus2 0 seekingPlayer) = - 2 \<and>
   events (seekRequested seekReturnsMinus2 0 seekingPlayer)
     = events seekingPlayer @ [GraphReset]"
  by code_simp

text \<open>
  The amended claim at the pending seek to frame 20000: the decoder lands there from
  frame 4096, or answers \<open>-1\<close>. After the landed seek the pass reads 2048 frames more.
\<close>

theorem seekRequested_counters_witness:
  "0 < length (mActiveDecoders seekingPlayer) \<and>
   map_option mFramesRendered (mActiveDecoders seekingPlayer ! 0) = Some 1024 \<and>
   mFramesDecoded seekingPlayer = 4096 \<and>
   map_option mFramesRendered (mActiveDecoders (seekRequested seekLands 0 seekingPlayer) ! 0)
     = Some 20000 \<and>
   map_option mFrameToSeek (mActiveDecoders (seekRequested seekLands 0 seekingPlayer) ! 0)
     = Some (- 1) \<and>
   mFramesDecoded (seekRequested seekLands 0 seekingPlayer) = 20000 \<and>
   mFramesRendered_global (seekRequested seekLands 0 seekingPlayer) = 20000 \<and>
   events (seekRequested seekLands 0 seekingPlayer) = events seekingPlayer @ [GraphReset] \<and>
   map_option mFramesRendered (mActiveDecoders (seekRequested seekFails 0 seekingPlayer) ! 0)
     = Some 1024 \<and>
   map_option mFrameToSeek (mActiveDecoders (seekRequested seekFails 0 seekingPlayer) ! 0)
     = Some (- 1) \<and>
   mFramesDecoded (seekRequested seekFails 0 seekingPlayer) = 4096 \<and>
   mFramesRendered_global (seekRequested seekFails 0 seekingPlayer) = 1024 \<and>
   events (seekRequested seekFails 0 seekingPlayer) = events seekingPlayer \<and>
   map_option (mFramesDecoded \<circ> fst) (readerIteration hostOK seekLands 0 seekingPlayer)
     = Some 22048"
proof -
  obtain s where s: "mActiveDecoders seekingPlayer ! 0 = Some s"
    and fields: "mFramesRendered s = 1024" "mFrameToSeek s = 20000" "mDecodingThread s = 7"
  proof -
    have "map_option (\<lambda>s. (mFramesRendered s, mFrameToSeek s, mDecodingThread s))
            (mActiveDecoders seekingPlayer ! 0) = Some (1024, 20000, 7)"
      by code_simp
    then show ?thesis using that by auto
  qed
  have len: "0 < length (mActiveDecoders seekingPlayer)" by code_simp
  have counters: "mFramesDecoded seekingPlayer = 4096" "mFramesRendered_global seekingPlayer = 1024"
    by code_simp+
  have room: "RING_BUFFER_WRITE_CHUNK_SIZE_FRAMES
                \<le> (ucast (RING_BUFFER_SIZE_FRAMES
                   - (mFramesDecoded seekingPlayer - mFramesRendered_global seekingPlayer)) :: UInt32)"
    by (simp add: counters RING_BUFFER_WRITE_CHUNK_SIZE_FRAMES_def RING_BUFFER_SIZE_FRAMES_def)
  have after: "map_option (mFramesDecoded \<circ> fst)
                 (readerIteration hostOK seekLands 0 (seekRequested seekLands 0 seekingPlayer))
               = Some 22048"
    by code_simp
  note lands = seekRequested_counters [OF len s, where a = seekLands and h = hostOK]
  note fails = seekRequested_counters [OF len s, where a = seekFails and h = hostOK]
  have a1: "newFrame seekLands \<noteq> - 1" "newFrame seekLands = 20000"
    "currentFrameBeforeSeeking seekLands = 4096"
    by (simp_all add: seekLands_def)
  have a2: "newFrame seekFails = - 1"
    by (simp add: seekFails_def)
  from lands a1 fields room counters after len
  have 1: "map_option mFramesRendered (mActiveDecoders (seekRequested seekLands 0 seekingPlayer) ! 0)
     = Some 20000"
    "map_option mFrameToSeek (mActiveDecoders (seekRequested seekLands 0 seekingPlayer) ! 0)
     = Some (- 1)"
    "mFramesDecoded (seekRequested seekLands 0 seekingPlayer) = 20000"
    "mFramesRendered_global (seekRequested seekLands 0 seekingPlayer) = 20000"
    "events (seekRequested seekLands 0 seekingPlayer) = events seekingPlayer @ [GraphReset]"
    "map_option (mFramesDecoded \<circ> fst) (readerIteration hostOK seekLands 0 seekingPlayer)
     = Some 22048"
    by simp_all
  from fails a2 fields counters len
  have 2: "map_option mFramesRendered (mActiveDecoders (seekRequested seekFails 0 seekingPlayer) ! 0)
     = Some 1024"
    "map_option mFrameToSeek (mActiveDecoders (seekRequested seekFails 0 seekingPlayer) ! 0)
     = Some (- 1)"
    "mFramesDecoded (seekRequested seekFails 0 seekingPlayer) = 4096"
    "mFramesRendered_global (seekRequested seekFails 0 seekingPlayer) = 1024"
    "events (seekRequested seekFails 0 seekingPlayer) = events seekingPlayer"
    by simp_all
  from len s fields counters 1 2 show ?thesis by simp
qed

subsection \<open>Enqueue\<close>

text \<open>
  Claim C8, amended. A decoder is passed to \<open>Enqueue\<close> while a decoder is current or the
  queue is not empty. If its sample rate or channel count differs from the format of
  the graph, \<open>Enqueue\<close> returns failure and the player (its queue, its active decoders,
  its counters) is unchanged: the decoder is not taken. If both match and the host's
  calls succeed (both locks of the queue mutex, the lookup of the output unit and the
  query of its stream format), the decoder is appended at the back of the queue and
  \<open>Enqueue\<close> returns success; if one of those calls fails, \<open>Enqueue\<close> returns failure
  and the player is unchanged. If no decoder is current and the queue is empty,
  \<open>Enqueue\<close> is \<^verbatim>\<open>Play(decoder)\<close>, provided the first lock succeeds; if that lock fails it
  returns failure and the player is unchanged.
\<close>

theorem Enqueue_outcomes:
  "(GetCurrentDecoderState p \<noteq> None \<or> mDecoderQueue p \<noteq> [] \<longrightarrow>
      (mSampleRate (GetFormat decoder) \<noteq> mSampleRate (graphFormat h)
       \<or> mChannelsPerFrame (GetFormat decoder) \<noteq> mChannelsPerFrame (graphFormat h)
         \<longrightarrow> Enqueue h p decoder = (False, p)) \<and>
      (mSampleRate (GetFormat decoder) = mSampleRate (graphFormat h)
       \<and> mChannelsPerFrame (GetFormat decoder) = mChannelsPerFrame (graphFormat h)
       \<and> lockResult h 0 = 0 \<and> nodeInfoResult h = noErr \<and> getPropertyResult h = noErr
       \<and> lockResult h 1 = 0
         \<longrightarrow> Enqueue h p decoder
               = (True, p\<lparr>mDecoderQueue := mDecoderQueue p @ [decoder]\<rparr>)) \<and>
      (lockResult h 0 \<noteq> 0 \<or> nodeInfoResult h \<noteq> noErr \<or> getPropertyResult h \<noteq> noErr
       \<or> lockResult h 1 \<noteq> 0
         \<longrightarrow> Enqueue h p decoder = (False, p))) \<and>
   (GetCurrentDecoderState p = None \<and> mDecoderQueue p = [] \<and> lockResult h 0 = 0 \<longrightarrow>
      Enqueue h p decoder = Play_decoder (laterLocks h) p decoder) \<and>
   (lockResult h 0 \<noteq> 0 \<longrightarrow> Enqueue h p decoder = (False, p))"
  by (auto simp: Enqueue_def Let_def)

text \<open>
  The claim as stated promises success whenever the formats match. With a decoder
  playing and a matching format, a queue mutex that cannot be locked makes \<open>Enqueue\<close>
  return failure and leave the queue as it was.
\<close>

theorem Enqueue_lock_failure_counterexample:
  "GetCurrentDecoderState handoffSecondPass \<noteq> None \<and>
   mSampleRate (GetFormat decoderD2) = mSampleRate (graphFormat hostLockFails) \<and>
   mChannelsPerFrame (GetFormat decoderD2) = mChannelsPerFrame (graphFormat hostLockFails) \<and>
   lockResult hostLockFails 0 = 22 \<and>
   fst (Enqueue hostLockFails handoffSecondPass decoderD2) = False \<and>
   mDecoderQueue (snd (Enqueue hostLockFails handoffSecondPass decoderD2))
     = mDecoderQueue handoffSecondPass"
  by code_simp

text \<open>
  The amended claim during the handoff (a decoder is current): a decoder at 48000 Hz is
  refused, one at 44100 Hz is appended, and is refused when the mutex cannot be locked;
  on the new player \<open>Enqueue\<close> is \<^verbatim>\<open>Play(decoder)\<close>.
\<close>

theorem Enqueue_outcomes_witness:
  "GetCurrentDecoderState handoffSecondPass \<noteq> None \<and>
   Enqueue hostOK handoffSecondPass decoderD3 = (False, handoffSecondPass) \<and>
   Enqueue hostOK handoffSecondPass decoderD2
     = (True, handoffSecondPass\<lparr>mDecoderQueue := mDecoderQueue handoffSecondPass @ [decoderD2]\<rparr>) \<and>
   Enqueue hostLockFails handoffSecondPass decoderD2 = (False, handoffSecondPass) \<and>
   GetCurrentDecoderState newPlayer = None \<and> mDecoderQueue newPlayer = [] \<and>
   Enqueue hostOK newPlayer decoderD1 = Play_decoder (laterLocks hostOK) newPlayer decoderD1 \<and>
   mDecoderQueue (snd (Enqueue hostOK newPlayer decoderD1)) = [decoderD1]"
proof -
  have busy: "GetCurrentDecoderState handoffSecondPass \<noteq> None" by code_simp
  have idle: "GetCurrentDecoderState newPlayer = None" "mDecoderQueue newPlayer = []"
    by code_simp+
  have host: "lockResult hostOK 0 = 0" "lockResult hostOK 1 = 0" "nodeInfoResult hostOK = noErr"
    "getPropertyResult hostOK = noErr" "graphFormat hostOK = stereo44100"
    "lockResult hostLockFails 0 \<noteq> 0"
    by (simp_all add: hostOK_def hostLockFails_def noErr_def)
  have fmt: "mSampleRate (GetFormat decoderD3) \<noteq> mSampleRate stereo44100"
    "mSampleRate (GetFormat decoderD2) = mSampleRate stereo44100"
    "mChannelsPerFrame (GetFormat decoderD2) = mChannelsPerFrame stereo44100"
    by (simp_all add: decoderD3_def decoderD2_def stereo44100_def stereo48000_def)
  have played: "mDecoderQueue (snd (Play_decoder (laterLocks hostOK) newPlayer decoderD1))
                  = [decoderD1]"
    by code_simp
  from Enqueue_outcomes [of handoffSecondPass decoderD3 hostOK] busy host fmt
  have 1: "Enqueue hostOK handoffSecondPass decoderD3 = (False, handoffSecondPass)"
    by simp
  from Enqueue_outcomes [of handoffSecondPass decoderD2 hostOK] busy host fmt
  have 2: "Enqueue hostOK handoffSecondPass decoderD2
     = (True, handoffSecondPass\<lparr>mDecoderQueue := mDecoderQueue handoffSecondPass @ [decoderD2]\<rparr>)"
    by simp
  from Enqueue_outcomes [of handoffSecondPass decoderD2 hostLockFails] busy host
  have 3: "Enqueue hostLockFails handoffSecondPass decoderD2 = (False, handoffSecondPass)"
    by simp
  from Enqueue_outcomes [of newPlayer decoderD1 hostOK] idle host
  have 4: "Enqueue hostOK newPlayer decoderD1
             = Play_decoder (laterLocks hostOK) newPlayer decoderD1"
    by simp
  from busy idle 1 2 3 4 played show ?thesis by simp
qed

subsection \<open>The reader thread: the end of the stream\<close>

lemma emit_fields [simp]:
  "mFramesDecoded (emit es p) = mFramesDecoded p"
  "mFramesRendered_global (emit es p) = mFramesRendered_global p"
  "mNextDecoderStartingTimeStamp (emit es p) = mNextDecoderStartingTimeStamp p"
  "mDecoderQueue (emit es p) = mDecoderQueue p"
  "mActiveDecoders (emit es p) = mActiveDecoders p"
  "mFramesRenderedLastPass (emit es p) = mFramesRenderedLastPass p"
  "graphIsRunning (emit es p) = graphIsRunning p"
  "events (emit es p) = events p @ es"
  by (simp_all add: emit_def)

lemma distributeLastPass_fields [simp]:
  "mFramesDecoded (distributeLastPass p) = mFramesDecoded p"
  "mFramesRendered_global (distributeLastPass p) = mFramesRendered_global p"
  "mNextDecoderStartingTimeStamp (distributeLastPass p) = mNextDecoderStartingTimeStamp p"
  "mDecoderQueue (distributeLastPass p) = mDecoderQueue p"
  "graphIsRunning (distributeLastPass p) = graphIsRunning p"
  by (simp_all add: distributeLastPass_def split: prod.splits)

lemma seekRequested_next [simp]:
  "mNextDecoderStartingTimeStamp (seekRequested a i p) = mNextDecoderStartingTimeStamp p"
  "mDecoderQueue (seekRequested a i p) = mDecoderQueue p"
  "length (mActiveDecoders (seekRequested a i p)) = length (mActiveDecoders p)"
  by (simp_all add: seekRequested_def Let_def ResetAUGraph_def)

lemma seekRequested_slot:
  "i < length (mActiveDecoders p) \<Longrightarrow> mActiveDecoders p ! i = Some s \<Longrightarrow>
     \<exists>s'. mActiveDecoders (seekRequested a i p) ! i = Some s' \<and> mDecoder s' = mDecoder s"
  by (simp add: seekRequested_def Let_def ResetAUGraph_def updateState_def)

lemma Stop_next:
  "mNextDecoderStartingTimeStamp (Stop p)
     = (if IsPlaying p then 0 else mNextDecoderStartingTimeStamp p)"
  by (simp add: Stop_def)

lemma Play_decoder_next: "mNextDecoderStartingTimeStamp (snd (Play_decoder h p decoder)) = 0"
  by (simp add: Play_decoder_def Let_def Play_def IsPlaying_def)

lemma Enqueue_next:
  "mNextDecoderStartingTimeStamp (snd (Enqueue h p decoder))
     = (if 0 = lockResult h 0 \<and> GetCurrentDecoderState p = None \<and> mDecoderQueue p = []
        then 0 else mNextDecoderStartingTimeStamp p)"
  by (simp add: Enqueue_def Let_def Play_decoder_next)

lemma FileReaderStart_next:
  "FileReaderStart h p = Some (p', slot) \<Longrightarrow>
     mNextDecoderStartingTimeStamp p' = mNextDecoderStartingTimeStamp p"
  by (auto simp: FileReaderStart_def Let_def split: if_splits list.splits option.splits)

lemma Render_next:
  "mNextDecoderStartingTimeStamp (fst (snd (Render Fetch p flags n ioData)))
     = mNextDecoderStartingTimeStamp p"
  by (simp add: Render_def Let_def split: prod.splits)

lemma DidRender_next:
  "mNextDecoderStartingTimeStamp (snd (DidRender p flags))
     = (if beginsSession (CallDidRender flags) p then 0 else mNextDecoderStartingTimeStamp p)"
  by (simp add: DidRender_def Let_def Stop_next IsPlaying_def)

lemma endOfStream_fields:
  "mNextDecoderStartingTimeStamp (endOfStream h a d i p)
     = mNextDecoderStartingTimeStamp p + startingFrameNumber a"
  "mActiveDecoders (endOfStream h a d i p)
     = (mActiveDecoders p)[i := map_option
          (\<lambda>s. s\<lparr>mDecodingThread := 0, mKeepDecoding := False,
                 mTotalFrames := startingFrameNumber a\<rparr>) (mActiveDecoders p ! i)]"
  "events (endOfStream h a d i p)
     = events p @ [DecodingFinished d]
       @ (if 0 = lockResult h 0 \<and> mDecoderQueue p \<noteq> [] \<and> createResult h = 0
          then [ReaderThreadCreated] else [])"
  by (simp_all add: endOfStream_def Let_def updateState_def)

text \<open>The player a pass of the loop hands to the block for the end of the stream.\<close>

lemma readerIteration_endOfStream:
  assumes "readsEndOfStream a i p" and "mActiveDecoders p ! i = Some s"
  shows "readerIteration h a i p
           = Some (endOfStream h a (decoderId (mDecoder s)) i
                     ((if 0 = startingFrameNumber a
                       then emit [DecodingStarted (decoderId (mDecoder s))] else id)
                        (if - 1 \<noteq> mFrameToSeek s then seekRequested a i p else p)),
                   False)"
  using assms
  by (simp add: readerIteration_def readsEndOfStream_def Let_def)

lemma readerIteration_no_endOfStream:
  assumes "\<not> readsEndOfStream a i p"
  shows "mNextDecoderStartingTimeStamp (perform (ReaderIterates h a i) p)
           = mNextDecoderStartingTimeStamp p"
  using assms
  by (auto simp: readerIteration_def readsEndOfStream_def Let_def split: option.splits)

lemma before_endOfStream_slot:
  assumes i: "i < length (mActiveDecoders p)" and s: "mActiveDecoders p ! i = Some s"
  shows "\<exists>s'. mActiveDecoders
               ((if 0 = startingFrameNumber a then emit [DecodingStarted d] else id)
                  (if - 1 \<noteq> mFrameToSeek s then seekRequested a i p else p)) ! i = Some s'
             \<and> mDecoder s' = mDecoder s"
  using seekRequested_slot [OF i s, of a] s by auto

lemma perform_endOfStream:
  assumes eos: "readsEndOfStream a i p"
  shows "mNextDecoderStartingTimeStamp (perform (ReaderIterates h a i) p)
           = mNextDecoderStartingTimeStamp p + startingFrameNumber a"
    and "endOfStreamTotals (ReaderIterates h a i) p = [startingFrameNumber a]"
proof -
  from eos have i: "i < length (mActiveDecoders p)"
    by (simp add: readsEndOfStream_def)
  with eos obtain s where s: "mActiveDecoders p ! i = Some s"
    by (auto simp: readsEndOfStream_def split: option.splits)
  let ?q = "(if 0 = startingFrameNumber a
             then emit [DecodingStarted (decoderId (mDecoder s))] else id)
              (if - 1 \<noteq> mFrameToSeek s then seekRequested a i p else p)"
  have step: "perform (ReaderIterates h a i) p = endOfStream h a (decoderId (mDecoder s)) i ?q"
    by (simp add: readerIteration_endOfStream [OF eos s])
  have q_next: "mNextDecoderStartingTimeStamp ?q = mNextDecoderStartingTimeStamp p"
    by simp
  have q_len: "i < length (mActiveDecoders ?q)"
    using i by simp
  from before_endOfStream_slot [OF i s, of a "decoderId (mDecoder s)"]
  obtain s' where s': "mActiveDecoders ?q ! i = Some s'" by blast
  show "mNextDecoderStartingTimeStamp (perform (ReaderIterates h a i) p)
          = mNextDecoderStartingTimeStamp p + startingFrameNumber a"
    by (simp only: step endOfStream_fields q_next)
  have "mActiveDecoders (perform (ReaderIterates h a i) p) ! i
          = Some (s'\<lparr>mDecodingThread := 0, mKeepDecoding := False,
                     mTotalFrames := startingFrameNumber a\<rparr>)"
    using q_len s' by (simp only: step endOfStream_fields) simp
  then show "endOfStreamTotals (ReaderIterates h a i) p = [startingFrameNumber a]"
    using eos by (simp del: perform.simps)
qed

lemma perform_next:
  "mNextDecoderStartingTimeStamp (perform a p)
     = (if beginsSession a p then 0 else mNextDecoderStartingTimeStamp p)
       + sum_list (endOfStreamTotals a p)"
proof (cases a)
  case CallPlay
  then show ?thesis by (simp add: Play_def)
next
  case CallPause
  then show ?thesis by (simp add: Pause_def)
next
  case CallStop
  then show ?thesis by (simp add: Stop_next)
next
  case (CallPlayDecoder h decoder)
  then show ?thesis by (simp add: Play_decoder_next)
next
  case (CallEnqueue h decoder)
  then show ?thesis by (simp add: Enqueue_next)
next
  case (CallClearQueuedDecoders h)
  then show ?thesis by (simp add: ClearQueuedDecoders_def)
next
  case (CallSeekToFrame frame)
  then show ?thesis
    by (auto simp: SeekToFrame_def split: option.splits if_splits)
next
  case (ReaderStarts h)
  then show ?thesis
    by (auto simp: FileReaderStart_next split: option.splits)
next
  case (ReaderIterates h answers i)
  show ?thesis
  proof (cases "readsEndOfStream answers i p")
    case True
    from perform_endOfStream [OF True, of h] ReaderIterates show ?thesis
      by (simp del: perform.simps endOfStreamTotals.simps)
  next
    case False
    from readerIteration_no_endOfStream [OF False, of h] False ReaderIterates show ?thesis
      by (simp del: perform.simps)
  qed
next
  case (CallRender Fetch flags n ioData)
  then show ?thesis by (simp add: Render_next)
next
  case (CallDidRender flags)
  then show ?thesis
    using DidRender_next [of p flags] by (simp del: beginsSession.simps)
next
  case CollectorSweeps
  then show ?thesis by (simp add: CollectorSweep_def)
qed

lemma run_next:
  "mNextDecoderStartingTimeStamp p = sum_list totals \<Longrightarrow>
     mNextDecoderStartingTimeStamp (run as p) = sum_list (sessionTotals totals as p)"
proof (induction as arbitrary: p totals)
  case Nil
  then show ?case by simp
next
  case (Cons a as)
  have "mNextDecoderStartingTimeStamp (perform a p)
          = sum_list ((if beginsSession a p then [] else totals) @ endOfStreamTotals a p)"
    using Cons.prems by (simp add: perform_next del: perform.simps)
  from Cons.IH [OF this] show ?case by simp
qed

lemma seekRequested_events:
  "events (seekRequested a i p) = events p @ (if - 1 \<noteq> newFrame a then [GraphReset] else [])"
  by (simp add: seekRequested_def Let_def ResetAUGraph_def)

lemma readerIteration_finished:
  "mActiveDecoders q ! i = Some t \<Longrightarrow> mDecodingThread t = 0 \<Longrightarrow>
     readerIteration h a i q = None"
  by (simp add: readerIteration_def)

text \<open>
  Claim C6, amended. A pass of the reader of slot \<open>i\<close> reads, the read returns no
  frames, and the decoder's position before the read is \<open>startingFrameNumber\<close>. Then
  the pass leaves the inner loop; it issues the decoding-finished notification of the
  decoder; the state in slot \<open>i\<close> has \<open>mTotalFrames = startingFrameNumber\<close>,
  \<open>mKeepDecoding\<close> cleared and its thread handle cleared, so that this reader takes no
  further step; \<open>startingFrameNumber\<close> is added to \<open>mNextDecoderStartingTimeStamp\<close>; and
  a reader thread for the next decoder is created exactly when the queue is not empty,
  the queue mutex could be locked and \<^verbatim>\<open>pthread_create\<close> succeeded. Along every run of
  the pipeline that starts where \<open>mNextDecoderStartingTimeStamp\<close> is the sum of the
  totals recorded so far, it remains the sum of \<open>mTotalFrames\<close> over the decoders that
  reached the end of their stream in the current play session.
\<close>

theorem endOfStream_step:
  assumes eos: "readsEndOfStream a i p" and s: "mActiveDecoders p ! i = Some s"
  shows "(\<exists>p' es s'.
            readerIteration h a i p = Some (p', False) \<and>
            events p' = events p @ es \<and>
            DecodingFinished (decoderId (mDecoder s)) \<in> set es \<and>
            (ReaderThreadCreated \<in> set es
               \<longleftrightarrow> mDecoderQueue p \<noteq> [] \<and> lockResult h 0 = 0 \<and> createResult h = 0) \<and>
            mActiveDecoders p' ! i = Some s' \<and>
            mDecoder s' = mDecoder s \<and>
            mTotalFrames s' = startingFrameNumber a \<and>
            \<not> mKeepDecoding s' \<and>
            mDecodingThread s' = 0 \<and>
            mNextDecoderStartingTimeStamp p'
              = mNextDecoderStartingTimeStamp p + startingFrameNumber a \<and>
            (\<forall>h2 a2. readerIteration h2 a2 i p' = None)) \<and>
         (\<forall>as totals q.
            mNextDecoderStartingTimeStamp q = sum_list totals \<longrightarrow>
            mNextDecoderStartingTimeStamp (run as q) = sum_list (sessionTotals totals as q))"
proof (intro conjI allI impI)
  fix as totals and q :: AudioPlayer
  assume "mNextDecoderStartingTimeStamp q = sum_list totals"
  then show "mNextDecoderStartingTimeStamp (run as q) = sum_list (sessionTotals totals as q)"
    by (rule run_next)
next
  from eos have i: "i < length (mActiveDecoders p)"
    by (simp add: readsEndOfStream_def)
  let ?d = "decoderId (mDecoder s)"
  let ?q = "(if 0 = startingFrameNumber a then emit [DecodingStarted ?d] else id)
              (if - 1 \<noteq> mFrameToSeek s then seekRequested a i p else p)"
  let ?es1 = "(if - 1 \<noteq> mFrameToSeek s \<and> - 1 \<noteq> newFrame a then [GraphReset] else [])
              @ (if 0 = startingFrameNumber a then [DecodingStarted ?d] else [])"
  let ?spawn = "(if 0 = lockResult h 0 \<and> mDecoderQueue p \<noteq> [] \<and> createResult h = 0
                 then [ReaderThreadCreated] else [])"
  let ?p' = "endOfStream h a ?d i ?q"
  have step: "readerIteration h a i p = Some (?p', False)"
    by (rule readerIteration_endOfStream [OF eos s])
  have q_events: "events ?q = events p @ ?es1"
    by (simp add: seekRequested_events)
  have q_queue: "mDecoderQueue ?q = mDecoderQueue p"
    by simp
  have q_next: "mNextDecoderStartingTimeStamp ?q = mNextDecoderStartingTimeStamp p"
    by simp
  have q_len: "i < length (mActiveDecoders ?q)"
    using i by simp
  from before_endOfStream_slot [OF i s, of a ?d]
  obtain s0 where s0: "mActiveDecoders ?q ! i = Some s0" "mDecoder s0 = mDecoder s"
    by blast
  let ?s' = "s0\<lparr>mDecodingThread := 0, mKeepDecoding := False,
                  mTotalFrames := startingFrameNumber a\<rparr>"
  have ev: "events ?p' = events p @ (?es1 @ [DecodingFinished ?d] @ ?spawn)"
    by (simp only: endOfStream_fields q_events q_queue) simp
  have slot: "mActiveDecoders ?p' ! i = Some ?s'"
    using q_len s0 by (simp only: endOfStream_fields) simp
  have nxt: "mNextDecoderStartingTimeStamp ?p'
               = mNextDecoderStartingTimeStamp p + startingFrameNumber a"
    by (simp only: endOfStream_fields q_next)
  have fin: "DecodingFinished ?d \<in> set (?es1 @ [DecodingFinished ?d] @ ?spawn)"
    by simp
  have spawn: "ReaderThreadCreated \<in> set (?es1 @ [DecodingFinished ?d] @ ?spawn)
                 \<longleftrightarrow> mDecoderQueue p \<noteq> [] \<and> lockResult h 0 = 0 \<and> createResult h = 0"
    by auto
  show "\<exists>p' es s'.
            readerIteration h a i p = Some (p', False) \<and>
            events p' = events p @ es \<and>
            DecodingFinished (decoderId (mDecoder s)) \<in> set es \<and>
            (ReaderThreadCreated \<in> set es
               \<longleftrightarrow> mDecoderQueue p \<noteq> [] \<and> lockResult h 0 = 0 \<and> createResult h = 0) \<and>
            mActiveDecoders p' ! i = Some s' \<and>
            mDecoder s' = mDecoder s \<and>
            mTotalFrames s' = startingFrameNumber a \<and>
            \<not> mKeepDecoding s' \<and>
            mDecodingThread s' = 0 \<and>
            mNextDecoderStartingTimeStamp p'
              = mNextDecoderStartingTimeStamp p + startingFrameNumber a \<and>
            (\<forall>h2 a2. readerIteration h2 a2 i p' = None)"
  proof (intro exI conjI)
    show "readerIteration h a i p = Some (?p', False)" by (rule step)
    show "events ?p' = events p @ (?es1 @ [DecodingFinished ?d] @ ?spawn)" by (rule ev)
    show "DecodingFinished ?d \<in> set (?es1 @ [DecodingFinished ?d] @ ?spawn)" by (rule fin)
    show "ReaderThreadCreated \<in> set (?es1 @ [DecodingFinished ?d] @ ?spawn)
            \<longleftrightarrow> mDecoderQueue p \<noteq> [] \<and> lockResult h 0 = 0 \<and> createResult h = 0"
      by (rule spawn)
    show "mActiveDecoders ?p' ! i = Some ?s'" by (rule slot)
    show "mDecoder ?s' = mDecoder s" using s0 by simp
    show "mTotalFrames ?s' = startingFrameNumber a" by simp
    show "\<not> mKeepDecoding ?s'" by simp
    show "mDecodingThread ?s' = 0" by simp
    show "mNextDecoderStartingTimeStamp ?p'
            = mNextDecoderStartingTimeStamp p + startingFrameNumber a" by (rule nxt)
    show "\<forall>h2 a2. readerIteration h2 a2 i ?p' = None"
      using readerIteration_finished [OF slot] by simp
  qed
qed

text \<open>
  The claim as stated promises a reader for the next decoder whenever the queue is not
  empty. The first reader of the handoff reaches the end of its stream with the second
  decoder in the queue; when the queue mutex cannot be locked, the pass issues the
  decoding-finished notification and creates no thread.
\<close>

theorem endOfStream_lock_failure_counterexample:
  "mDecoderQueue handoffReading = [decoderD2] \<and>
   readsEndOfStream (reads 1000 0) 0 handoffReading \<and>
   lockResult hostLockFails 0 = 22 \<and>
   map_option (events \<circ> fst) (readerIteration hostLockFails (reads 1000 0) 0 handoffReading)
     = Some (events handoffReading @ [DecodingFinished 1]) \<and>
   ReaderThreadCreated
     \<notin> set (drop (length (events handoffReading))
              (events (perform (ReaderIterates hostLockFails (reads 1000 0) 0) handoffReading)))"
  by code_simp


text \<open>
  The amended claim at the same pass on a host whose calls succeed: 1000 is added to
  \<open>mNextDecoderStartingTimeStamp\<close>, the state's total is 1000, a reader thread is
  created; and along the whole run of the handoff the time stamp is the sum of the
  recorded totals, \<open>[1000]\<close>.
\<close>

theorem endOfStream_step_witness:
  "readsEndOfStream (reads 1000 0) 0 handoffReading \<and>
   mDecoderQueue handoffReading \<noteq> [] \<and>
   map_option (mNextDecoderStartingTimeStamp \<circ> fst)
     (readerIteration hostOK (reads 1000 0) 0 handoffReading) = Some 1000 \<and>
   map_option (\<lambda>r. map_option mTotalFrames (mActiveDecoders (fst r) ! 0))
     (readerIteration hostOK (reads 1000 0) 0 handoffReading) = Some (Some 1000) \<and>
   map_option (\<lambda>r. ReaderThreadCreated \<in> set (drop (length (events handoffReading))
                                                  (events (fst r))))
     (readerIteration hostOK (reads 1000 0) 0 handoffReading) = Some True \<and>
   mNextDecoderStartingTimeStamp newPlayer = sum_list [] \<and>
   mNextDecoderStartingTimeStamp handoffDecoded
     = sum_list (sessionTotals [] handoffActions newPlayer) \<and>
   sessionTotals [] handoffActions newPlayer = [1000]"
proof -
  have eos: "readsEndOfStream (reads 1000 0) 0 handoffReading"
    by code_simp
  have queue: "mDecoderQueue handoffReading \<noteq> []"
    by code_simp
  have nxt: "mNextDecoderStartingTimeStamp handoffReading = 0"
    by code_simp
  have start: "startingFrameNumber (reads 1000 0) = 1000"
    by (simp add: reads_def)
  have host: "lockResult hostOK 0 = 0" "createResult hostOK = 0"
    by (simp_all add: hostOK_def)
  have new: "mNextDecoderStartingTimeStamp newPlayer = sum_list []"
    by (simp add: newPlayer_def)
  have totals: "sessionTotals [] handoffActions newPlayer = [1000]"
    by code_simp
  obtain s where s: "mActiveDecoders handoffReading ! 0 = Some s"
  proof -
    have "map_option (\<lambda>s. ()) (mActiveDecoders handoffReading ! 0) = Some ()"
      by code_simp
    then show ?thesis using that by auto
  qed
  note inst = endOfStream_step [OF eos s, where h = hostOK]
  from inst obtain p' es s' where step:
    "readerIteration hostOK (reads 1000 0) 0 handoffReading = Some (p', False)"
    "events p' = events handoffReading @ es"
    "ReaderThreadCreated \<in> set es
       \<longleftrightarrow> mDecoderQueue handoffReading \<noteq> [] \<and> lockResult hostOK 0 = 0 \<and> createResult hostOK = 0"
    "mActiveDecoders p' ! 0 = Some s'"
    "mTotalFrames s' = startingFrameNumber (reads 1000 0)"
    "mNextDecoderStartingTimeStamp p'
       = mNextDecoderStartingTimeStamp handoffReading + startingFrameNumber (reads 1000 0)"
    by blast
  from inst new have inv:
    "mNextDecoderStartingTimeStamp (run handoffActions newPlayer)
       = sum_list (sessionTotals [] handoffActions newPlayer)"
    by blast
  from step queue host nxt start
  have 1: "map_option (mNextDecoderStartingTimeStamp \<circ> fst)
     (readerIteration hostOK (reads 1000 0) 0 handoffReading) = Some 1000"
    "map_option (\<lambda>r. map_option mTotalFrames (mActiveDecoders (fst r) ! 0))
     (readerIteration hostOK (reads 1000 0) 0 handoffReading) = Some (Some 1000)"
    "map_option (\<lambda>r. ReaderThreadCreated \<in> set (drop (length (events handoffReading))
                                                  (events (fst r))))
     (readerIteration hostOK (reads 1000 0) 0 handoffReading) = Some True"
    by simp_all
  from eos queue 1 new inv totals show ?thesis
    by (simp add: handoffDecoded_def)
qed

subsection \<open>The rendered frames of the states and of the player\<close>

lemma accountDecoder_whole_pass:
  assumes "ucast lastPass <s mTotalFrames s - mFramesRendered s"
  shows "accountDecoder lastPass s
           = (s\<lparr>mFramesRendered := mFramesRendered s + ucast lastPass\<rparr>,
              (if 0 = mFramesRendered s then [RenderingStarted (decoderId (mDecoder s))] else []),
              ucast lastPass)"
proof -
  have "mFramesRendered s + ucast lastPass \<noteq> mTotalFrames s"
  proof
    assume "mFramesRendered s + ucast lastPass = mTotalFrames s"
    then have "mTotalFrames s - mFramesRendered s = ucast lastPass"
      by (simp add: algebra_simps)
    with assms show False by simp
  qed
  with assms show ?thesis
    by (simp add: accountDecoder_def Let_def min_SInt64_def)
qed

lemma distributeFrames_first:
  assumes "liveStates table = s # rest"
    and "accountDecoder lastPass s = (s', es, remaining)"
    and "\<not> mReadyForCollection s'"
  shows "liveStates (fst (distributeFrames lastPass remaining table)) = s' # rest"
  using assms
proof (induction table)
  case Nil
  then show ?case by simp
next
  case (Cons slot table)
  show ?case
  proof (cases slot)
    case None
    with Cons show ?thesis by (auto split: prod.splits)
  next
    case (Some t)
    show ?thesis
    proof (cases "mReadyForCollection t")
      case True
      with Some Cons show ?thesis by (auto split: prod.splits)
    next
      case False
      with Some Cons.prems have "t = s" "liveStates table = rest" by simp_all
      with Some False Cons.prems show ?thesis by simp
    qed
  qed
qed

lemma Render_fetched:
  assumes "(ucast (mFramesDecoded p - mFramesRendered_global p) :: UInt32) \<noteq> 0"
    and "Render Fetch p flags n ioData = (noErr, p1, flags1, out)"
  shows "mActiveDecoders p1 = mActiveDecoders p"
    and "mFramesRendered_global p1 = mFramesRendered_global p + ucast (mFramesRenderedLastPass p1)"
    and "graphIsRunning p1 = graphIsRunning p"
  using assms
  by (auto simp: Render_def Let_def emit_def noErr_def ioErr_def
      split: prod.splits if_splits)

lemma sumFramesRendered_parts:
  "sumFramesRendered table = sum_list (map renderedPart table)"
proof (induction table)
  case Nil
  then show ?case by (simp add: sumFramesRendered_def)
next
  case (Cons slot table)
  then show ?case
    by (cases slot) (simp_all add: sumFramesRendered_def renderedPart_def)
qed

lemma sum_list_update_group:
  fixes xs :: "'a::ab_group_add list"
  shows "i < length xs \<Longrightarrow> sum_list (xs[i := v]) = sum_list xs - xs ! i + v"
proof (induction xs arbitrary: i)
  case Nil
  then show ?case by simp
next
  case (Cons x xs)
  then show ?case by (cases i) (simp_all add: algebra_simps)
qed

lemma sumFramesRendered_update:
  assumes "i < length table"
  shows "sumFramesRendered (table[i := slot])
           = sumFramesRendered table - renderedPart (table ! i) + renderedPart slot"
  using assms
  by (simp add: sumFramesRendered_parts map_update sum_list_update_group)

lemma sumFramesRendered_updateState:
  assumes "\<And>s. mFramesRendered (f s) = mFramesRendered s"
    and "\<And>s. mReadyForCollection (f s) = mReadyForCollection s"
  shows "sumFramesRendered (mActiveDecoders (updateState i f p))
           = sumFramesRendered (mActiveDecoders p)"
proof (cases "i < length (mActiveDecoders p)")
  case True
  have "renderedPart (map_option f (mActiveDecoders p ! i)) = renderedPart (mActiveDecoders p ! i)"
    by (cases "mActiveDecoders p ! i") (simp_all add: renderedPart_def assms)
  with True show ?thesis
    by (simp add: updateState_def sumFramesRendered_update)
next
  case False
  then show ?thesis by (simp add: updateState_def list_update_beyond)
qed

lemma sumFramesRendered_stopped:
  "sumFramesRendered (map (map_option stopDecoderState) table) = 0"
proof -
  have "renderedPart (map_option stopDecoderState slot) = 0" for slot
    by (cases slot) (simp_all add: renderedPart_def stopDecoderState_def)
  then show ?thesis
    by (simp add: sumFramesRendered_parts comp_def)
qed

lemma sumFramesRendered_collected:
  "sumFramesRendered (map collectSlot table) = sumFramesRendered table"
proof -
  have "renderedPart (collectSlot slot) = renderedPart slot" for slot
    by (cases slot) (simp_all add: renderedPart_def collectSlot_def)
  then show ?thesis
    by (simp add: sumFramesRendered_parts comp_def)
qed

lemma sumFramesRendered_installed:
  assumes "installState s table = Some (table', i)"
    and "mFramesRendered s = 0"
  shows "sumFramesRendered table' = sumFramesRendered table"
  using assms
proof (induction table arbitrary: table' i)
  case Nil
  then show ?case by simp
next
  case (Cons slot table)
  show ?case
  proof (cases slot)
    case None
    with Cons.prems show ?thesis
      by (auto simp: sumFramesRendered_parts renderedPart_def)
  next
    case (Some other)
    with Cons.prems obtain rest' j where
      "installState s table = Some (rest', j)" "table' = Some other # rest'"
      by (auto split: option.splits)
    with Cons.IH [of rest' j] Cons.prems(2) Some show ?thesis
      by (simp add: sumFramesRendered_parts)
  qed
qed

lemma agree_emit [simp]: "renderedSumsAgree (emit es p) = renderedSumsAgree p"
  by (simp add: renderedSumsAgree_def)

lemma endOfStream_rendered:
  "sumFramesRendered (mActiveDecoders (endOfStream h a d i p))
     = sumFramesRendered (mActiveDecoders p)"
  "mFramesRendered_global (endOfStream h a d i p) = mFramesRendered_global p"
  by (simp_all add: endOfStream_def Let_def sumFramesRendered_updateState)

lemma seekRequested_failed_rendered:
  assumes "newFrame a = - 1"
  shows "sumFramesRendered (mActiveDecoders (seekRequested a i p))
           = sumFramesRendered (mActiveDecoders p)"
    and "mFramesRendered_global (seekRequested a i p) = mFramesRendered_global p"
  using assms
  by (simp_all add: seekRequested_def Let_def sumFramesRendered_updateState)

lemma readerIteration_rendered:
  assumes "\<not> landsSeek a i p"
  shows "sumFramesRendered (mActiveDecoders (perform (ReaderIterates h a i) p))
           = sumFramesRendered (mActiveDecoders p)
         \<and> mFramesRendered_global (perform (ReaderIterates h a i) p) = mFramesRendered_global p"
proof (cases "readerIteration h a i p")
  case None
  then show ?thesis by simp
next
  case (Some r)
  then obtain s where i: "i < length (mActiveDecoders p)"
    and s: "mActiveDecoders p ! i = Some s" and thread: "mDecodingThread s \<noteq> 0"
    by (auto simp: readerIteration_def split: if_splits option.splits)
  show ?thesis
  proof (cases "RING_BUFFER_WRITE_CHUNK_SIZE_FRAMES
                  \<le> (ucast (RING_BUFFER_SIZE_FRAMES
                              - (mFramesDecoded p - mFramesRendered_global p)) :: UInt32)")
    case False
    with i s thread show ?thesis
      by (simp add: readerIteration_def Let_def)
  next
    case True
    with assms i s thread have failed: "- 1 \<noteq> mFrameToSeek s \<Longrightarrow> newFrame a = - 1"
      by (auto simp: landsSeek_def)
    let ?p1 = "if - 1 \<noteq> mFrameToSeek s then seekRequested a i p else p"
    have p1: "sumFramesRendered (mActiveDecoders ?p1) = sumFramesRendered (mActiveDecoders p)"
      "mFramesRendered_global ?p1 = mFramesRendered_global p"
      using failed by (simp_all add: seekRequested_failed_rendered)
    from True i s thread p1 show ?thesis
      by (simp add: readerIteration_def Let_def endOfStream_rendered)
  qed
qed

lemma Play_decoder_rendered:
  "mActiveDecoders (snd (Play_decoder h p decoder))
     = map (map_option stopDecoderState) (mActiveDecoders p)"
  "mFramesRendered_global (snd (Play_decoder h p decoder)) = 0"
  by (simp_all add: Play_decoder_def Let_def Play_def Pause_def IsPlaying_def
      StopActiveDecoders_def ResetAUGraph_def)

lemma agree_Play_decoder: "renderedSumsAgree (snd (Play_decoder h p decoder))"
  by (simp add: renderedSumsAgree_def Play_decoder_rendered sumFramesRendered_stopped)

lemma agree_Stop: "renderedSumsAgree p \<Longrightarrow> renderedSumsAgree (Stop p)"
  by (simp add: renderedSumsAgree_def Stop_def StopActiveDecoders_def ResetAUGraph_def
      Pause_def sumFramesRendered_stopped)

lemma agree_FileReaderStart:
  assumes "FileReaderStart h p = Some (p', slot)" and "renderedSumsAgree p"
  shows "renderedSumsAgree p'"
  using assms
  by (auto simp: FileReaderStart_def Let_def renderedSumsAgree_def new_DecoderStateData_def
      split: if_splits list.splits option.splits
      dest!: sumFramesRendered_installed)

lemma agree_besides:
  assumes "besidesRenderingAndSeeking a p" and "renderedSumsAgree p"
  shows "renderedSumsAgree (perform a p)"
proof (cases a)
  case CallPlay
  with assms show ?thesis by (simp add: Play_def renderedSumsAgree_def)
next
  case CallPause
  with assms show ?thesis by (simp add: Pause_def renderedSumsAgree_def)
next
  case CallStop
  with assms show ?thesis by (simp add: agree_Stop)
next
  case (CallPlayDecoder h decoder)
  then show ?thesis by (simp add: agree_Play_decoder)
next
  case (CallEnqueue h decoder)
  with assms show ?thesis
    by (auto simp: Enqueue_def Let_def renderedSumsAgree_def
        agree_Play_decoder [unfolded renderedSumsAgree_def])
next
  case (CallClearQueuedDecoders h)
  with assms show ?thesis
    by (simp add: ClearQueuedDecoders_def renderedSumsAgree_def)
next
  case (CallSeekToFrame frame)
  with assms show ?thesis
    by (auto simp: SeekToFrame_def renderedSumsAgree_def sumFramesRendered_updateState
        split: option.splits if_splits)
next
  case (ReaderStarts h)
  with assms show ?thesis
    by (auto simp: agree_FileReaderStart split: option.splits)
next
  case (ReaderIterates h answers i)
  with assms have "\<not> landsSeek answers i p" by simp
  from readerIteration_rendered [OF this, of h] assms(2) ReaderIterates show ?thesis
    by (simp add: renderedSumsAgree_def del: perform.simps)
next
  case (CallRender Fetch flags n ioData)
  with assms show ?thesis by simp
next
  case (CallDidRender flags)
  with assms show ?thesis by simp
next
  case CollectorSweeps
  with assms show ?thesis
    by (simp add: CollectorSweep_def renderedSumsAgree_def sumFramesRendered_collected)
qed

lemma postRender_flag:
  "kAudioUnitRenderAction_PostRender AND kAudioUnitRenderAction_PostRender \<noteq> 0"
  by (simp add: kAudioUnitRenderAction_PostRender_def)

lemma liveStates_not_ready:
  "s \<in> set (liveStates table) \<Longrightarrow> \<not> mReadyForCollection s"
  by (induction table rule: liveStates.induct) (auto split: if_splits)

lemma readerIteration_Some:
  "i < length (mActiveDecoders p) \<Longrightarrow> mActiveDecoders p ! i = Some s \<Longrightarrow>
     mDecodingThread s \<noteq> 0 \<Longrightarrow> readerIteration h a i p \<noteq> None"
  by (auto simp: readerIteration_def Let_def)

lemma agree_render_pass:
  assumes inv: "renderedSumsAgree p"
    and avail: "(ucast (mFramesDecoded p - mFramesRendered_global p) :: UInt32) \<noteq> 0"
    and render: "Render Fetch p flags n ioData = (noErr, p1, flags1, out)"
    and live: "liveStates (mActiveDecoders p) = s # rest"
    and more: "ucast (mFramesRenderedLastPass p1) <s mTotalFrames s - mFramesRendered s"
  shows "renderedSumsAgree (snd (DidRender p1 kAudioUnitRenderAction_PostRender))"
proof -
  note r = Render_fetched [OF avail render]
  let ?lp = "mFramesRenderedLastPass p1"
  show ?thesis
  proof (cases "?lp = 0")
    case True
    with inv r show ?thesis
      by (simp add: DidRender_def renderedSumsAgree_def)
  next
    case False
    let ?s' = "s\<lparr>mFramesRendered := mFramesRendered s + ucast ?lp\<rparr>"
    from live have notready: "\<not> mReadyForCollection s"
      using liveStates_not_ready [of s "mActiveDecoders p"] by simp
    have acc: "accountDecoder ?lp s
                 = (?s', (if 0 = mFramesRendered s
                          then [RenderingStarted (decoderId (mDecoder s))] else []), ucast ?lp)"
      by (rule accountDecoder_whole_pass [OF more])
    have live1: "liveStates (mActiveDecoders p1) = s # rest"
      using live r by simp
    have live': "liveStates (fst (distributeFrames ?lp (ucast ?lp) (mActiveDecoders p1)))
                   = ?s' # rest"
      by (rule distributeFrames_first [OF live1 acc]) (simp add: notready)
    let ?p2 = "distributeLastPass p1"
    have table2: "liveStates (mActiveDecoders ?p2) = ?s' # rest"
      using live' by (cases "distributeFrames ?lp (ucast ?lp) (mActiveDecoders p1)")
        (simp add: distributeLastPass_def)
    then have cur: "GetCurrentDecoderState ?p2 \<noteq> None"
      by (simp add: GetCurrentDecoderState_None)
    have did: "snd (DidRender p1 kAudioUnitRenderAction_PostRender) = ?p2"
      using False cur postRender_flag by (auto simp: DidRender_def Let_def)
    have "sumFramesRendered (mActiveDecoders ?p2)
            = sumFramesRendered (mActiveDecoders p) + ucast ?lp"
      using table2 live by (simp add: sumFramesRendered_def)
    with inv r show ?thesis
      by (simp add: did renderedSumsAgree_def)
  qed
qed

lemma agree_landed_seek:
  assumes lands: "landsSeek a i p"
    and s: "mActiveDecoders p ! i = Some s"
    and live: "\<not> mReadyForCollection s"
    and inv: "renderedSumsAgree p"
    and ring: "mFramesDecoded p - mFramesRendered_global p
                 = currentFrameBeforeSeeking a - mFramesRendered s"
  shows "renderedSumsAgree (perform (ReaderIterates h a i) p)"
proof -
  from lands s have i: "i < length (mActiveDecoders p)" and thread: "mDecodingThread s \<noteq> 0"
    and pending: "mFrameToSeek s \<noteq> - 1" and landed: "newFrame a \<noteq> - 1"
    and room: "RING_BUFFER_WRITE_CHUNK_SIZE_FRAMES
                 \<le> (ucast (RING_BUFFER_SIZE_FRAMES
                             - (mFramesDecoded p - mFramesRendered_global p)) :: UInt32)"
    by (auto simp: landsSeek_def)
  let ?q = "seekRequested a i p"
  note q = seekRequested_landed [OF i s landed]
  have q_sum: "sumFramesRendered (mActiveDecoders ?q)
                 = sumFramesRendered (mActiveDecoders p) - mFramesRendered s + newFrame a"
    using i s live by (simp add: q sumFramesRendered_update renderedPart_def)
  have q_global: "mFramesRendered_global ?q
                    = mFramesDecoded p + (newFrame a - currentFrameBeforeSeeking a)"
    by (simp add: q)
  have "mFramesDecoded p = mFramesRendered_global p + (currentFrameBeforeSeeking a - mFramesRendered s)"
    using ring by (simp add: algebra_simps)
  with inv have q_inv: "renderedSumsAgree ?q"
    by (simp add: renderedSumsAgree_def q_sum q_global algebra_simps)
  have q_quiet: "\<not> landsSeek a i ?q"
    using i by (simp add: q landsSeek_def)
  have "readerIteration h a i ?q \<noteq> None"
    using i thread by (intro readerIteration_Some [where s = "s\<lparr>mFrameToSeek := - 1,
      mFramesRendered := newFrame a\<rparr>"]) (simp_all add: q)
  then have same: "perform (ReaderIterates h a i) p = perform (ReaderIterates h a i) ?q"
    using readerIteration_seek [OF i s thread room pending, of h a] by auto
  from readerIteration_rendered [OF q_quiet, of h] q_inv show ?thesis
    by (simp add: same renderedSumsAgree_def del: perform.simps)
qed

text \<open>
  Claim C2, amended. The sum of \<open>mFramesRendered\<close> over the decoder states that are not
  collected equals the global \<open>mFramesRendered\<close> after \<^verbatim>\<open>Play(decoder)\<close>, and from a
  player state in which the two are equal they are equal again
  \<^item> after every call of the controller, every start of a reader, every pass of a
    reader that does not serve a landing seek, and every sweep of the collector;
  \<^item> after a render callback that fetched frames followed by its post-render
    callback, when the first state that is not collected has more unrendered frames
    than the pass rendered (the whole pass is attributed to it and it does not finish);
  \<^item> after a reader's pass that serves a landing seek on a state that is not
    collected, when the frames decoded and not yet rendered are all frames of that
    decoder (\<open>mFramesDecoded - mFramesRendered\<close> is the decoder's position minus the
    state's \<open>mFramesRendered\<close>).
  The equality is not an invariant of the reachable states: it does not survive a
  state finishing its rendering.
\<close>

theorem renderedSums_preserved:
  assumes inv: "renderedSumsAgree p"
  shows "(\<forall>a. besidesRenderingAndSeeking a p \<longrightarrow> renderedSumsAgree (perform a p)) \<and>
         (\<forall>Fetch flags n ioData p1 flags1 out s rest.
            (ucast (mFramesDecoded p - mFramesRendered_global p) :: UInt32) \<noteq> 0 \<and>
            Render Fetch p flags n ioData = (noErr, p1, flags1, out) \<and>
            liveStates (mActiveDecoders p) = s # rest \<and>
            ucast (mFramesRenderedLastPass p1) <s mTotalFrames s - mFramesRendered s
            \<longrightarrow> renderedSumsAgree (snd (DidRender p1 kAudioUnitRenderAction_PostRender))) \<and>
         (\<forall>h a i s.
            landsSeek a i p \<and> mActiveDecoders p ! i = Some s \<and> \<not> mReadyForCollection s \<and>
            mFramesDecoded p - mFramesRendered_global p
              = currentFrameBeforeSeeking a - mFramesRendered s
            \<longrightarrow> renderedSumsAgree (perform (ReaderIterates h a i) p)) \<and>
         (\<forall>h q decoder. renderedSumsAgree (snd (Play_decoder h q decoder)))"
proof (intro conjI allI impI)
  fix a
  assume "besidesRenderingAndSeeking a p"
  then show "renderedSumsAgree (perform a p)"
    using inv by (rule agree_besides)
next
  fix Fetch flags n ioData and p1 :: AudioPlayer and flags1 out s rest
  assume "(ucast (mFramesDecoded p - mFramesRendered_global p) :: UInt32) \<noteq> 0 \<and>
          Render Fetch p flags n ioData = (noErr, p1, flags1, out) \<and>
          liveStates (mActiveDecoders p) = s # rest \<and>
          ucast (mFramesRenderedLastPass p1) <s mTotalFrames s - mFramesRendered s"
  then show "renderedSumsAgree (snd (DidRender p1 kAudioUnitRenderAction_PostRender))"
    using agree_render_pass [OF inv] by blast
next
  fix h a i s
  assume "landsSeek a i p \<and> mActiveDecoders p ! i = Some s \<and> \<not> mReadyForCollection s \<and>
          mFramesDecoded p - mFramesRendered_global p
            = currentFrameBeforeSeeking a - mFramesRendered s"
  then show "renderedSumsAgree (perform (ReaderIterates h a i) p)"
    using agree_landed_seek [of a i p s h] inv by blast
next
  fix h and q :: AudioPlayer and decoder
  show "renderedSumsAgree (snd (Play_decoder h q decoder))"
    by (rule agree_Play_decoder)
qed

text \<open>
  The claim as stated fails at a state the handoff reaches. The equality holds when
  both decoders are decoded. After two passes of 500 frames the first state has
  rendered its 1000 frames and is marked ready for collection; the collector removes
  it. The global counter is 1000; the one state left has rendered nothing.
\<close>

theorem renderedSums_handoff_counterexample:
  "renderedSumsAgree handoffDecoded \<and>
   mFramesRendered_global handoffCollected = 1000 \<and>
   map (map_option mFramesRendered) (mActiveDecoders handoffCollected)
     = [None, Some 0, None, None, None, None, None, None] \<and>
   sumFramesRendered (mActiveDecoders handoffCollected) = 0 \<and>
   \<not> renderedSumsAgree handoffCollected"
  by code_simp

text \<open>
  The amended claim during the handoff (a pass of 512 frames with its post-render
  callback, a sweep of the collector, \<^verbatim>\<open>Play(decoder)\<close>) and at the landing seek to frame
  20000.
\<close>

theorem renderedSums_preserved_witness:
  "renderedSumsAgree handoffDecoded \<and>
   renderedSumsAgree
     (run [CallRender fetchOK 0 512 outputBuffers,
           CallDidRender kAudioUnitRenderAction_PostRender] handoffDecoded) \<and>
   renderedSumsAgree (perform CollectorSweeps handoffDecoded) \<and>
   renderedSumsAgree seekingPlayer \<and>
   landsSeek seekLands 0 seekingPlayer \<and>
   renderedSumsAgree (perform (ReaderIterates hostOK seekLands 0) seekingPlayer) \<and>
   renderedSumsAgree (snd (Play_decoder hostOK handoffCollected decoderD3))"
proof -
  have inv1: "renderedSumsAgree handoffDecoded" by code_simp
  have inv2: "renderedSumsAgree seekingPlayer" by code_simp
  note at1 = renderedSums_preserved [OF inv1]
  note at2 = renderedSums_preserved [OF inv2]
  have avail: "(ucast (mFramesDecoded handoffDecoded - mFramesRendered_global handoffDecoded)
                 :: UInt32) \<noteq> 0"
    by code_simp
  obtain p1 flags1 out where
    render: "Render fetchOK handoffDecoded 0 512 outputBuffers = (noErr, p1, flags1, out)"
  proof -
    have "fst (Render fetchOK handoffDecoded 0 512 outputBuffers) = noErr"
      by code_simp
    then show ?thesis
      using that by (cases "Render fetchOK handoffDecoded 0 512 outputBuffers") auto
  qed
  have lastPass: "mFramesRenderedLastPass
                    (fst (snd (Render fetchOK handoffDecoded 0 512 outputBuffers))) = 512"
    by code_simp
  then have lp: "mFramesRenderedLastPass p1 = 512"
    by (simp add: render)
  obtain s rest where live: "liveStates (mActiveDecoders handoffDecoded) = s # rest"
    and s: "mTotalFrames s = 1000" "mFramesRendered s = 0"
  proof -
    have "map (\<lambda>s. (mTotalFrames s, mFramesRendered s))
            (liveStates (mActiveDecoders handoffDecoded)) = [(1000, 0), (500, 0)]"
      by code_simp
    then show ?thesis
      using that by (auto simp: map_eq_Cons_conv)
  qed
  have more: "ucast (mFramesRenderedLastPass p1) <s mTotalFrames s - mFramesRendered s"
    by (simp add: lp s word_sless_alt)
  from at1 avail render live more
  have "renderedSumsAgree (snd (DidRender p1 kAudioUnitRenderAction_PostRender))"
    by blast
  then have 1: "renderedSumsAgree
     (run [CallRender fetchOK 0 512 outputBuffers,
           CallDidRender kAudioUnitRenderAction_PostRender] handoffDecoded)"
    by (simp add: render)
  from at1 have 2: "renderedSumsAgree (perform CollectorSweeps handoffDecoded)"
    by (simp del: perform.simps)
  have lands: "landsSeek seekLands 0 seekingPlayer" by code_simp
  obtain t where t: "mActiveDecoders seekingPlayer ! 0 = Some t"
    and tf: "\<not> mReadyForCollection t" "mFramesRendered t = 1024"
  proof -
    have "map_option (\<lambda>s. (mReadyForCollection s, mFramesRendered s))
            (mActiveDecoders seekingPlayer ! 0) = Some (False, 1024)"
      by code_simp
    then show ?thesis using that by auto
  qed
  have counters: "mFramesDecoded seekingPlayer = 4096" "mFramesRendered_global seekingPlayer = 1024"
    by code_simp+
  have ring: "mFramesDecoded seekingPlayer - mFramesRendered_global seekingPlayer
                = currentFrameBeforeSeeking seekLands - mFramesRendered t"
    by (simp add: counters tf seekLands_def)
  from at2 lands t tf(1) ring
  have 3: "renderedSumsAgree (perform (ReaderIterates hostOK seekLands 0) seekingPlayer)"
    by blast
  from at1 have 4: "renderedSumsAgree (snd (Play_decoder hostOK handoffCollected decoderD3))"
    by blast
  from inv1 inv2 1 2 3 4 lands show ?thesis by simp
qed

end
